theory Spec2Isabelle
  imports
    Main
    "HOL-Library.Sublist"
    "HOL-Library.Multiset"
    "HOL-Library.Char_ord"
    "HOL-Library.List_Lexorder"
    "HOL-Library.AList"
begin

section \<open>Strings and the Go library functions the adapter calls\<close>

text \<open>
  A Go \<open>string\<close> is a byte sequence; it is modelled as \<open>string\<close> (a \<open>char list\<close>, one
  \<open>char\<close> per byte). With \<open>Char_ord\<close> and \<open>List_Lexorder\<close> the order \<open><\<close> on \<open>string\<close>
  is the bytewise lexicographic order of Go's string comparison.
\<close>

definition indent :: string where
  "indent = ''    ''"

text \<open>
  \<open>strings.SplitN(s, ".", 2)\<close>: at most two pieces, cut at the first separator.
  Only this instance (a one-byte separator, \<open>n = 2\<close>) occurs in the source.
\<close>

definition SplitN2 :: "string \<Rightarrow> char \<Rightarrow> string list" where
  "SplitN2 s sep =
     (if sep \<in> set s
      then [takeWhile (\<lambda>c. c \<noteq> sep) s, tl (dropWhile (\<lambda>c. c \<noteq> sep) s)]
      else [s])"

text \<open>\<open>splitTableName\<close> (mssql.go, lines 644-652).\<close>

definition splitTableName :: "string \<Rightarrow> string \<times> string" where
  "splitTableName table =
     (let schema = ''dbo'';
          schemaTable = SplitN2 table (CHR ''.'')
      in if length schemaTable = 2
         then (schemaTable ! 0, schemaTable ! 1)
         else (schema, table))"

text \<open>
  \<open>strings.ToLower\<close>, on the ASCII letters. Bytes from 0x80 on are left as they are:
  Go also folds the letters beyond ASCII, which the keyword table does not contain.
\<close>

definition toLowerChar :: "char \<Rightarrow> char" where
  "toLowerChar c =
     (case map_of (zip ''ABCDEFGHIJKLMNOPQRSTUVWXYZ'' ''abcdefghijklmnopqrstuvwxyz'') c of
        None \<Rightarrow> c | Some l \<Rightarrow> l)"

definition ToLower :: "string \<Rightarrow> string" where
  "ToLower s = map toLowerChar s"

text \<open>
  \<open>strings.TrimSpace\<close>, on the ASCII white space (tab, line feed, vertical tab, form
  feed, carriage return, space). Go also trims the Unicode white space beyond ASCII.
\<close>

definition isSpace :: "char \<Rightarrow> bool" where
  "isSpace c = (c \<in> set [CHR 0x09, CHR 0x0A, CHR 0x0B, CHR 0x0C, CHR 0x0D, CHR '' ''])"

definition TrimSpace :: "string \<Rightarrow> string" where
  "TrimSpace s = rev (dropWhile isSpace (rev (dropWhile isSpace s)))"

text \<open>
  \<open>strings.ReplaceAll(s, old, new)\<close> and \<open>strings.Replace(s, old, new, -1)\<close> for a
  one-byte \<open>old\<close>, the only instances in the source.
\<close>

definition ReplaceAll :: "string \<Rightarrow> char \<Rightarrow> string \<Rightarrow> string" where
  "ReplaceAll s old new = concat (map (\<lambda>c. if c = old then new else [c]) s)"

text \<open>\<open>strings.TrimSuffix(s, suffix)\<close> and \<open>strings.Join(elems, sep)\<close>.\<close>

definition TrimSuffix :: "string \<Rightarrow> string \<Rightarrow> string" where
  "TrimSuffix s suf =
     (if suffix suf s then take (length s - length suf) s else s)"

fun Join :: "string list \<Rightarrow> string \<Rightarrow> string" where
  "Join [] sep = []"
| "Join [e] sep = e"
| "Join (e # es) sep = e @ sep @ Join es sep"

text \<open>
  \<open>strconv.Atoi\<close>: an optional sign and then one or more decimal digits, within the
  range of a 64-bit \<open>int\<close>; \<open>None\<close> is the error return. \<open>strconv.Itoa\<close> is the
  decimal rendering.
\<close>

definition isDigit :: "char \<Rightarrow> bool" where
  "isDigit c = (c \<in> set ''0123456789'')"

definition digitVal :: "char \<Rightarrow> nat" where
  "digitVal c = of_char c - 48"

definition parseDigits :: "string \<Rightarrow> nat" where
  "parseDigits ds = foldl (\<lambda>n c. 10 * n + digitVal c) 0 ds"

definition Atoi :: "string \<Rightarrow> int option" where
  "Atoi s =
     (let neg = (s \<noteq> [] \<and> hd s = CHR ''-'');
          ds = (if s \<noteq> [] \<and> (hd s = CHR ''+'' \<or> hd s = CHR ''-'') then tl s else s)
      in if ds = [] \<or> \<not> list_all isDigit ds then None
         else let n = int (parseDigits ds)
              in if neg then (if n > 2 ^ 63 then None else Some (- n))
                 else (if n > 2 ^ 63 - 1 then None else Some n))"

fun natDigits :: "nat \<Rightarrow> string" where
  "natDigits n =
     (if n < 10 then [''0123456789'' ! n]
      else natDigits (n div 10) @ [''0123456789'' ! (n mod 10)])"

definition Itoa :: "int \<Rightarrow> string" where
  "Itoa i = (if i < 0 then CHR ''-'' # natDigits (nat (- i)) else natDigits (nat i))"

text \<open>Go's \<open>/\<close> on \<open>int\<close> truncates toward zero.\<close>

definition goDiv :: "int \<Rightarrow> int \<Rightarrow> int" where
  "goDiv a b = sgn a * sgn b * (\<bar>a\<bar> div \<bar>b\<bar>)"

section \<open>Columns\<close>

record identity =
  SeedValue :: string
  IncrementValue :: string
  NotForReplication :: bool

record check =
  Name :: string
  Definition :: string
  NotForReplication :: bool

record column =
  Name :: string
  dataType :: string
  MaxLength :: string
  Scale :: string
  Nullable :: bool
  Identity :: "identity option"
  DefaultName :: string
  DefaultVal :: string
  Check :: "check option"

text \<open>
  \<open>getLength\<close> (mssql.go, lines 282-305): the length to render after the type name and
  whether there is one.
\<close>

definition getLength :: "column \<Rightarrow> string \<times> bool" where
  "getLength c =
     (if dataType c \<in> set [''char'', ''varchar'', ''binary'', ''varbinary''] then
        (if MaxLength c = ''-1'' then (''max'', True) else (MaxLength c, True))
      else if dataType c \<in> set [''nvarchar'', ''nchar''] then
        (if MaxLength c = ''-1'' then (''max'', True)
         else case Atoi (MaxLength c) of
                None \<Rightarrow> ([], False)
              | Some maxLength \<Rightarrow> (Itoa (goDiv maxLength 2), True))
      else if dataType c = ''datetimeoffset'' then
        (if Scale c = ''7'' then ([], False) else (Scale c, True))
      else ([], False))"

section \<open>The database connection\<close>

text \<open>
  The adapter reads the database through \<open>d.db.Query\<close> and \<open>rows.Scan\<close>. A query
  either fails or yields rows, and every row either fails to scan or yields the scanned
  values; a nil-pointer dereference is the value \<open>Panic\<close>. The connection is a record
  with one field per query text of the source; the queries that are built with
  \<open>fmt.Sprintf\<close> take the schema and the table name.
\<close>

datatype error = DbError string | Panic

type_synonym 'r rows = "(error + 'r) list"

record columnRow =
  c_name :: string
  tp_name :: string
  c_max_length :: string
  c_scale :: string
  c_is_nullable :: bool
  c_is_identity :: bool
  ic_seed_value :: "string option"
  ic_increment_value :: "string option"
  ic_is_not_for_replication :: "bool option"
  c_default_object_id :: string
  default_name :: "string option"
  default_definition :: "string option"
  cc_name :: "string option"
  cc_definition :: "string option"
  cc_is_not_for_replication :: "bool option"

record indexRow =
  index_name :: string
  is_primary_key :: bool
  is_unique :: bool
  type_desc :: string
  is_padded :: bool
  fill_factor :: string
  ignore_dup_key :: bool
  no_recompute :: bool
  is_incremental :: bool
  allow_row_locks :: bool
  allow_page_locks :: bool

record indexColumnRow =
  ic_index_name :: string
  column_name :: string
  is_descending_key :: bool
  is_included_column :: bool

record foreignRow =
  f_name :: string
  parent_column :: string
  referenced_table :: string
  referenced_column :: string
  update_referential_action_desc :: string
  delete_referential_action_desc :: string
  f_is_not_for_replication :: bool

record connection =
  tablesQuery :: "error + (string \<times> string) rows"
  columnsQuery :: "string \<Rightarrow> string \<Rightarrow> error + columnRow rows"
  indexesQuery :: "string \<Rightarrow> string \<Rightarrow> error + indexRow rows"
  indexColumnsQuery :: "string \<Rightarrow> string \<Rightarrow> error + indexColumnRow rows"
  foreignKeysQuery :: "string \<Rightarrow> string \<Rightarrow> error + foreignRow rows"
  viewsQuery :: "error + (string \<times> string) rows"
  triggersQuery :: "error + string rows"

section \<open>Foreign keys and the order of the tables\<close>

text \<open>\<open>getForeignDefs\<close> (mssql.go, lines 503-544); \<open>scanForeignRows\<close> is its row loop.\<close>

fun scanForeignRows ::
  "string \<Rightarrow> foreignRow rows \<Rightarrow> string list \<Rightarrow> string list \<Rightarrow> error + string list \<times> string list"
where
  "scanForeignRows schema [] foreignTableNames defs = Inr (defs, foreignTableNames)"
| "scanForeignRows schema (Inl err # rest) foreignTableNames defs = Inl err"
| "scanForeignRows schema (Inr r # rest) foreignTableNames defs =
     (let foreignTableName = schema @ ''.'' @ referenced_table r;
          foreignUpdateRule = ReplaceAll (update_referential_action_desc r) (CHR ''_'') '' '';
          foreignDeleteRule = ReplaceAll (delete_referential_action_desc r) (CHR ''_'') '' '';
          def = ''CONSTRAINT ['' @ f_name r @ ''] FOREIGN KEY (['' @ parent_column r
                @ '']) REFERENCES '' @ foreignTableName @ '' (['' @ referenced_column r
                @ '']) ON UPDATE '' @ foreignUpdateRule @ '' ON DELETE '' @ foreignDeleteRule;
          def = (if f_is_not_for_replication r then def @ '' NOT FOR REPLICATION'' else def)
      in scanForeignRows schema rest (foreignTableNames @ [foreignTableName]) (defs @ [def]))"

definition getForeignDefs :: "connection \<Rightarrow> string \<Rightarrow> error + string list \<times> string list" where
  "getForeignDefs d table =
     (case splitTableName table of (schema, table) \<Rightarrow>
        (case foreignKeysQuery d schema table of
           Inl err \<Rightarrow> Inl err
         | Inr rows \<Rightarrow> scanForeignRows schema rows [] []))"

text \<open>
  \<open>TableNames\<close> (mssql.go, lines 53-116). \<open>scanTableRows\<close> is the row loop of lines
  62-69 and \<open>buildForeignTableMap\<close> the loop of lines 75-82. A Go map is a partial
  function; reading a key that is absent gives the zero value, here the nil slice.
\<close>

fun scanTableRows :: "(string \<times> string) rows \<Rightarrow> string list \<Rightarrow> error + string list" where
  "scanTableRows [] tables = Inr tables"
| "scanTableRows (Inl err # rest) tables = Inl err"
| "scanTableRows (Inr (schema, name) # rest) tables =
     scanTableRows rest (tables @ [schema @ ''.'' @ name])"

fun buildForeignTableMap ::
  "connection \<Rightarrow> string list \<Rightarrow> (string \<rightharpoonup> string list) \<Rightarrow> error + (string \<rightharpoonup> string list)"
where
  "buildForeignTableMap d [] foreignTableMap = Inr foreignTableMap"
| "buildForeignTableMap d (tableName # rest) foreignTableMap =
     (case getForeignDefs d tableName of
        Inl err \<Rightarrow> Inl err
      | Inr (defs, foreignTableNames) \<Rightarrow>
          buildForeignTableMap d rest (foreignTableMap(tableName \<mapsto> foreignTableNames)))"

definition fTableNamesOf :: "(string \<rightharpoonup> string list) \<Rightarrow> string \<Rightarrow> string list" where
  "fTableNamesOf foreignTableMap tableName =
     (case foreignTableMap tableName of None \<Rightarrow> [] | Some fTableNames \<Rightarrow> fTableNames)"

text \<open>Lines 90-97: no foreign table of the list is still missing from \<open>addedTables\<close>.\<close>

fun noDeps :: "(string \<rightharpoonup> bool) \<Rightarrow> string list \<Rightarrow> bool" where
  "noDeps addedTables [] = True"
| "noDeps addedTables (fTableName # rest) =
     (if addedTables fTableName = None then False else noDeps addedTables rest)"

text \<open>
  The inner loop of lines 88-106 on the state \<open>(tables, addedTables,
  dependencyOrderedTables)\<close>. Removing \<open>tables[i]\<close> overwrites it with the last element
  and cuts the slice by one; \<open>i\<close> stays.
\<close>

function innerLoop ::
  "(string \<rightharpoonup> string list) \<Rightarrow> nat \<Rightarrow> string list \<Rightarrow> (string \<rightharpoonup> bool) \<Rightarrow> string list
     \<Rightarrow> string list \<times> (string \<rightharpoonup> bool) \<times> string list"
where
  "innerLoop foreignTableMap i tables addedTables dependencyOrderedTables =
     (if i < length tables then
        (let tableName = tables ! i in
         if noDeps addedTables (fTableNamesOf foreignTableMap tableName)
         then innerLoop foreignTableMap i
                (butlast (tables[i := tables ! (length tables - 1)]))
                (addedTables(tableName \<mapsto> True))
                (dependencyOrderedTables @ [tableName])
         else innerLoop foreignTableMap (i + 1) tables addedTables dependencyOrderedTables)
      else (tables, addedTables, dependencyOrderedTables))"
  by pat_completeness auto
termination
  by (relation "measure (\<lambda>(foreignTableMap, i, tables, addedTables, ordered). length tables - i)")
    auto

declare innerLoop.simps [simp del]

lemma innerLoop_done:
  "\<not> i < length tables \<Longrightarrow>
   innerLoop foreignTableMap i tables addedTables ordered = (tables, addedTables, ordered)"
  by (subst innerLoop.simps) simp

lemma innerLoop_add:
  "i < length tables \<Longrightarrow> noDeps addedTables (fTableNamesOf foreignTableMap (tables ! i)) \<Longrightarrow>
   innerLoop foreignTableMap i tables addedTables ordered =
   innerLoop foreignTableMap i (butlast (tables[i := tables ! (length tables - 1)]))
     (addedTables(tables ! i \<mapsto> True)) (ordered @ [tables ! i])"
  by (subst innerLoop.simps) (simp add: Let_def)

lemma innerLoop_skip:
  "i < length tables \<Longrightarrow> \<not> noDeps addedTables (fTableNamesOf foreignTableMap (tables ! i)) \<Longrightarrow>
   innerLoop foreignTableMap i tables addedTables ordered =
   innerLoop foreignTableMap (i + 1) tables addedTables ordered"
  by (subst innerLoop.simps) (simp add: Let_def)

lemma innerLoop_length_le:
  "innerLoop foreignTableMap i tables addedTables ordered = (tables', addedTables', ordered')
     \<Longrightarrow> length tables' \<le> length tables"
proof (induction foreignTableMap i tables addedTables ordered rule: innerLoop.induct)
  case (1 foreignTableMap i tables addedTables ordered)
  show ?case
  proof (cases "i < length tables")
    case False
    with "1.prems" show ?thesis by (simp add: innerLoop_done)
  next
    case inb: True
    show ?thesis
    proof (cases "noDeps addedTables (fTableNamesOf foreignTableMap (tables ! i))")
      case True
      from "1.prems" have "innerLoop foreignTableMap i
          (butlast (tables[i := tables ! (length tables - 1)]))
          (addedTables(tables ! i \<mapsto> True)) (ordered @ [tables ! i])
          = (tables', addedTables', ordered')"
        by (simp add: innerLoop_add [OF inb True])
      then have "length tables' \<le> length (butlast (tables[i := tables ! (length tables - 1)]))"
        by (rule "1.IH"(1) [OF inb refl True])
      then show ?thesis by simp
    next
      case False
      from "1.prems" have "innerLoop foreignTableMap (i + 1) tables addedTables ordered
          = (tables', addedTables', ordered')"
        by (simp add: innerLoop_skip [OF inb False])
      then show ?thesis
        by (rule "1.IH"(2) [OF inb refl False])
    qed
  qed
qed

text \<open>
  The outer loop of lines 86-110: passes are repeated until the list is empty or a pass
  has removed nothing.
\<close>

function outerLoop ::
  "(string \<rightharpoonup> string list) \<Rightarrow> string list \<Rightarrow> (string \<rightharpoonup> bool) \<Rightarrow> string list
     \<Rightarrow> string list \<times> (string \<rightharpoonup> bool) \<times> string list"
where
  "outerLoop foreignTableMap tables addedTables dependencyOrderedTables =
     (if length tables > 0 then
        (let lastTableLen = length tables;
             pass = innerLoop foreignTableMap 0 tables addedTables dependencyOrderedTables
         in if lastTableLen = length (fst pass) then pass
            else outerLoop foreignTableMap (fst pass) (fst (snd pass)) (snd (snd pass)))
      else (tables, addedTables, dependencyOrderedTables))"
  by pat_completeness auto
termination
proof (relation "measure (\<lambda>(foreignTableMap, tables, addedTables, ordered). length tables)")
  show "wf (measure (\<lambda>(foreignTableMap, tables, addedTables, ordered). length tables))"
    by simp
next
  fix foreignTableMap :: "string \<rightharpoonup> string list"
    and tables dependencyOrderedTables :: "string list"
    and addedTables :: "string \<rightharpoonup> bool"
    and lastTableLen pass
  assume "lastTableLen = length tables"
    and p: "pass = innerLoop foreignTableMap 0 tables addedTables dependencyOrderedTables"
    and ne: "lastTableLen \<noteq> length (fst pass)"
  from p have "length (fst pass) \<le> length tables"
    using innerLoop_length_le [of foreignTableMap 0 tables addedTables dependencyOrderedTables
        "fst pass" "fst (snd pass)" "snd (snd pass)"]
    by simp
  with ne \<open>lastTableLen = length tables\<close>
  show "((foreignTableMap, fst pass, fst (snd pass), snd (snd pass)),
         (foreignTableMap, tables, addedTables, dependencyOrderedTables))
        \<in> measure (\<lambda>(foreignTableMap, tables, addedTables, ordered). length tables)"
    by (simp add: case_prod_beta)
qed

declare outerLoop.simps [simp del]

text \<open>Lines 84-113: the ordered tables, then the leftover of the loop.\<close>

definition orderByDependency :: "(string \<rightharpoonup> string list) \<Rightarrow> string list \<Rightarrow> string list" where
  "orderByDependency foreignTableMap tables =
     (case outerLoop foreignTableMap tables Map.empty [] of
        (tables, addedTables, dependencyOrderedTables) \<Rightarrow> dependencyOrderedTables @ tables)"

definition TableNames :: "connection \<Rightarrow> error + string list" where
  "TableNames d =
     (case tablesQuery d of
        Inl err \<Rightarrow> Inl err
      | Inr rows \<Rightarrow>
          (case scanTableRows rows [] of
             Inl err \<Rightarrow> Inl err
           | Inr tables \<Rightarrow>
               (case buildForeignTableMap d tables Map.empty of
                  Inl err \<Rightarrow> Inl err
                | Inr foreignTableMap \<Rightarrow> Inr (orderByDependency foreignTableMap tables))))"

section \<open>Reserved keywords\<close>

text \<open>
  \<open>sqlparser.Keywords()\<close> is not part of the adapter: the keyword table is a parameter,
  the list \<open>keywords\<close>. \<open>reservedKeywords\<close> is the map that \<open>init\<close> builds from it
  (lines 19-27) and \<open>getSafeColumnName\<close> is lines 29-34.
\<close>

definition reservedKeywords :: "string list \<Rightarrow> (string \<rightharpoonup> bool)" where
  "reservedKeywords keywords = foldl (\<lambda>m keyword. m(ToLower keyword \<mapsto> True)) Map.empty keywords"

definition getSafeColumnName :: "string list \<Rightarrow> string \<Rightarrow> string" where
  "getSafeColumnName keywords name =
     (if reservedKeywords keywords (ToLower name) \<noteq> None then ''['' @ name @ '']'' else name)"

section \<open>Columns and indexes of a table\<close>

text \<open>
  \<open>getColumns\<close> (lines 319-386). A failed query is only printed; the loop then calls
  \<open>rows.Next\<close> on a nil pointer. Dereferencing a pointer that scanned NULL panics too.
\<close>

definition scanColumn :: "columnRow \<Rightarrow> column option" where
  "scanColumn r =
     (case (if c_default_object_id r \<noteq> ''0''
            then (case (default_name r, default_definition r) of
                    (Some defaultName, Some defaultVal) \<Rightarrow> Some (defaultName, defaultVal)
                  | _ \<Rightarrow> None)
            else Some ([], [])) of
        None \<Rightarrow> None
      | Some (defaultName, defaultVal) \<Rightarrow>
     (case (if c_is_identity r
            then (case (ic_seed_value r, ic_increment_value r, ic_is_not_for_replication r) of
                    (Some seedValue, Some incrementValue, Some identityNotForReplication) \<Rightarrow>
                      Some (Some \<lparr> SeedValue = seedValue, IncrementValue = incrementValue,
                                   identity.NotForReplication = identityNotForReplication \<rparr>)
                  | _ \<Rightarrow> None)
            else Some None) of
        None \<Rightarrow> None
      | Some ident \<Rightarrow>
     (case (case cc_name r of
              None \<Rightarrow> Some None
            | Some checkName \<Rightarrow>
                (case (cc_definition r, cc_is_not_for_replication r) of
                   (Some checkDefinition, Some checkNotForReplication) \<Rightarrow>
                     Some (Some \<lparr> check.Name = checkName, Definition = checkDefinition,
                                  check.NotForReplication = checkNotForReplication \<rparr>)
                 | _ \<Rightarrow> None)) of
        None \<Rightarrow> None
      | Some chk \<Rightarrow>
          Some \<lparr> Name = c_name r, dataType = tp_name r, MaxLength = c_max_length r,
                 Scale = c_scale r, Nullable = c_is_nullable r, Identity = ident,
                 DefaultName = defaultName, DefaultVal = defaultVal, Check = chk \<rparr>)))"

fun scanColumnRows :: "columnRow rows \<Rightarrow> column list \<Rightarrow> error + column list" where
  "scanColumnRows [] cols = Inr cols"
| "scanColumnRows (Inl err # rest) cols = Inl err"
| "scanColumnRows (Inr r # rest) cols =
     (case scanColumn r of
        None \<Rightarrow> Inl Panic
      | Some col \<Rightarrow> scanColumnRows rest (cols @ [col]))"

definition getColumns :: "connection \<Rightarrow> string \<Rightarrow> error + column list" where
  "getColumns d table =
     (case splitTableName table of (schema, table) \<Rightarrow>
        (case columnsQuery d schema table of
           Inl err \<Rightarrow> Inl Panic
         | Inr rows \<Rightarrow> scanColumnRows rows []))"

record indexOption =
  name :: string
  "value" :: string

record indexDef =
  name :: string
  columns :: "string list"
  primary :: bool
  unique :: bool
  indexType :: string
  included :: "string list"
  options :: "indexOption list"

definition boolToOnOff :: "bool \<Rightarrow> string" where
  "boolToOnOff b = (if b then ''ON'' else ''OFF'')"

text \<open>
  \<open>getIndexDefs\<close> (lines 403-501). \<open>indexDefMap\<close> maps an index name to a pointer to
  its definition; no two keys share a pointer, so the map is modelled as an association
  list from names to definitions, and a store through the pointer as an update of the
  entry. \<open>indexDefinition\<close> is lines 435-449.
\<close>

definition indexDefinition :: "indexRow \<Rightarrow> indexDef" where
  "indexDefinition r =
     (let options =
            [\<lparr> indexOption.name = ''PAD_INDEX'', value = boolToOnOff (is_padded r) \<rparr>,
             \<lparr> indexOption.name = ''IGNORE_DUP_KEY'', value = boolToOnOff (ignore_dup_key r) \<rparr>,
             \<lparr> indexOption.name = ''STATISTICS_NORECOMPUTE'', value = boolToOnOff (no_recompute r) \<rparr>,
             \<lparr> indexOption.name = ''STATISTICS_INCREMENTAL'', value = boolToOnOff (is_incremental r) \<rparr>,
             \<lparr> indexOption.name = ''ALLOW_ROW_LOCKS'', value = boolToOnOff (allow_row_locks r) \<rparr>,
             \<lparr> indexOption.name = ''ALLOW_PAGE_LOCKS'', value = boolToOnOff (allow_page_locks r) \<rparr>];
          options = (if fill_factor r \<noteq> ''0''
                     then options @ [\<lparr> indexOption.name = ''FILLFACTOR'', value = fill_factor r \<rparr>]
                     else options)
      in \<lparr> name = index_name r, columns = [], primary = is_primary_key r, unique = is_unique r,
           indexType = type_desc r, included = [], options = options \<rparr>)"

fun scanIndexRows ::
  "indexRow rows \<Rightarrow> (string \<times> indexDef) list \<Rightarrow> error + (string \<times> indexDef) list"
where
  "scanIndexRows [] indexDefMap = Inr indexDefMap"
| "scanIndexRows (Inl err # rest) indexDefMap = Inl err"
| "scanIndexRows (Inr r # rest) indexDefMap =
     scanIndexRows rest (AList.update (index_name r) (indexDefinition r) indexDefMap)"

text \<open>
  Lines 472-488. An index name that the first query did not return reads a nil pointer
  from the map, and the store through it panics.
\<close>

fun scanIndexColumnRows ::
  "indexColumnRow rows \<Rightarrow> (string \<times> indexDef) list \<Rightarrow> error + (string \<times> indexDef) list"
where
  "scanIndexColumnRows [] indexDefMap = Inr indexDefMap"
| "scanIndexColumnRows (Inl err # rest) indexDefMap = Inl err"
| "scanIndexColumnRows (Inr r # rest) indexDefMap =
     (let columnDefinition = ''['' @ column_name r @ '']'' in
      case map_of indexDefMap (ic_index_name r) of
        None \<Rightarrow> Inl Panic
      | Some definition \<Rightarrow>
          if is_included_column r
          then scanIndexColumnRows rest
                 (AList.update (ic_index_name r)
                    (definition\<lparr> included := included definition @ [columnDefinition] \<rparr>) indexDefMap)
          else let columnDefinition =
                     (if is_descending_key r then columnDefinition @ '' DESC'' else columnDefinition)
               in scanIndexColumnRows rest
                    (AList.update (ic_index_name r)
                       (definition\<lparr> columns := columns definition @ [columnDefinition] \<rparr>) indexDefMap))"

text \<open>
  Lines 490-500. Go ranges over a map in an unspecified order and \<open>sort.Slice\<close> is not
  stable; the names in the map are distinct (\<open>indexDefMap_names\<close> below), so the sorted
  slice is the same for every order (\<open>sort_key_distinct_mset\<close>).
\<close>

definition sortedIndexDefs :: "(string \<times> indexDef) list \<Rightarrow> indexDef list" where
  "sortedIndexDefs indexDefMap = sort_key indexDef.name (map snd indexDefMap)"

definition getIndexDefs :: "connection \<Rightarrow> string \<Rightarrow> error + indexDef list" where
  "getIndexDefs d table =
     (case splitTableName table of (schema, table) \<Rightarrow>
        (case indexesQuery d schema table of
           Inl err \<Rightarrow> Inl err
         | Inr rows \<Rightarrow>
             (case scanIndexRows rows [] of
                Inl err \<Rightarrow> Inl err
              | Inr indexDefMap \<Rightarrow>
                  (case indexColumnsQuery d schema table of
                     Inl err \<Rightarrow> Inl err
                   | Inr rows \<Rightarrow>
                       (case scanIndexColumnRows rows indexDefMap of
                          Inl err \<Rightarrow> Inl err
                        | Inr indexDefMap \<Rightarrow> Inr (sortedIndexDefs indexDefMap))))))"

section \<open>The dump of a table\<close>

text \<open>
  \<open>buildDumpTableDDL\<close> (lines 134-268) writes six parts into one builder. Each part is
  a function here; the three copies of the \<open>WITH\<close> clause and of the index type clause
  are \<open>withOptions\<close> and \<open>indexTypeClause\<close>.
\<close>

definition columnDef :: "string list \<Rightarrow> column \<Rightarrow> string" where
  "columnDef keywords col =
     getSafeColumnName keywords (Name col) @ '' '' @ dataType col
     @ (case getLength col of (len, ok) \<Rightarrow> if ok then ''('' @ len @ '')'' else [])
     @ (if \<not> Nullable col then '' NOT NULL'' else [])
     @ (if DefaultName col \<noteq> [] then '' CONSTRAINT '' @ DefaultName col @ '' DEFAULT '' @ DefaultVal col
        else [])
     @ (case Identity col of
          None \<Rightarrow> []
        | Some ident \<Rightarrow> '' IDENTITY('' @ SeedValue ident @ '','' @ IncrementValue ident @ '')''
            @ (if identity.NotForReplication ident then '' NOT FOR REPLICATION'' else []))
     @ (case Check col of
          None \<Rightarrow> []
        | Some chk \<Rightarrow> '' CONSTRAINT ['' @ check.Name chk @ ''] CHECK''
            @ (if check.NotForReplication chk then '' NOT FOR REPLICATION'' else [])
            @ '' '' @ Definition chk)"

fun columnDefs :: "string list \<Rightarrow> nat \<Rightarrow> column list \<Rightarrow> string" where
  "columnDefs keywords i [] = []"
| "columnDefs keywords i (col # rest) =
     (if i > 0 then '','' else []) @ ''\<newline>'' @ indent @ columnDef keywords col
     @ columnDefs keywords (i + 1) rest"

fun optionItems :: "nat \<Rightarrow> indexOption list \<Rightarrow> string" where
  "optionItems i [] = []"
| "optionItems i (option # rest) =
     (if i > 0 then '','' else []) @ '' '' @ indexOption.name option @ '' = '' @ value option
     @ optionItems (i + 1) rest"

definition withOptions :: "indexDef \<Rightarrow> string" where
  "withOptions indexDef =
     (if length (options indexDef) > 0
      then '' WITH ('' @ optionItems 0 (options indexDef) @ '' )'' else [])"

definition indexTypeClause :: "indexDef \<Rightarrow> string" where
  "indexTypeClause indexDef =
     (if indexType indexDef = ''CLUSTERED'' \<or> indexType indexDef = ''NONCLUSTERED''
      then '' '' @ indexType indexDef else [])"

definition primaryKeyDef :: "indexDef \<Rightarrow> string" where
  "primaryKeyDef indexDef =
     '',\<newline>'' @ indent @ ''CONSTRAINT ['' @ indexDef.name indexDef @ ''] PRIMARY KEY''
     @ indexTypeClause indexDef
     @ '' ('' @ Join (columns indexDef) '', '' @ '')''
     @ withOptions indexDef"

fun primaryKeyDefs :: "indexDef list \<Rightarrow> string" where
  "primaryKeyDefs [] = []"
| "primaryKeyDefs (indexDef # rest) =
     (if \<not> primary indexDef then primaryKeyDefs rest
      else primaryKeyDef indexDef @ primaryKeyDefs rest)"

fun foreignDefsText :: "string list \<Rightarrow> string" where
  "foreignDefsText [] = []"
| "foreignDefsText (v # rest) = '',\<newline>'' @ indent @ v @ foreignDefsText rest"

definition inlineIndexDef :: "indexDef \<Rightarrow> string" where
  "inlineIndexDef indexDef =
     '',\<newline>'' @ indent @ ''INDEX ['' @ indexDef.name indexDef @ '']''
     @ (if unique indexDef then '' UNIQUE'' else [])
     @ indexTypeClause indexDef
     @ '' ('' @ Join (columns indexDef) '', '' @ '')''
     @ withOptions indexDef"

fun inlineIndexDefs :: "indexDef list \<Rightarrow> string" where
  "inlineIndexDefs [] = []"
| "inlineIndexDefs (indexDef # rest) =
     (if primary indexDef then inlineIndexDefs rest
      else if length (included indexDef) > 0 then inlineIndexDefs rest
      else inlineIndexDef indexDef @ inlineIndexDefs rest)"

definition createIndexStmt :: "string \<Rightarrow> indexDef \<Rightarrow> string" where
  "createIndexStmt table indexDef =
     ''\<newline>CREATE''
     @ (if unique indexDef then '' UNIQUE'' else [])
     @ indexTypeClause indexDef
     @ '' INDEX ['' @ indexDef.name indexDef @ ''] ON '' @ table
     @ '' ('' @ Join (columns indexDef) '', '' @ '')''
     @ (if length (included indexDef) > 0
        then '' INCLUDE ('' @ Join (included indexDef) '', '' @ '')'' else [])
     @ withOptions indexDef
     @ '';''"

fun createIndexStmts :: "string \<Rightarrow> indexDef list \<Rightarrow> string" where
  "createIndexStmts table [] = []"
| "createIndexStmts table (indexDef # rest) =
     (if length (included indexDef) = 0 then createIndexStmts table rest
      else if primary indexDef then createIndexStmts table rest
      else createIndexStmt table indexDef @ createIndexStmts table rest)"

definition buildDumpTableDDL ::
  "string list \<Rightarrow> string \<Rightarrow> column list \<Rightarrow> indexDef list \<Rightarrow> string list \<Rightarrow> string"
where
  "buildDumpTableDDL keywords table cols indexDefs foreignDefs =
     TrimSuffix
       (''CREATE TABLE '' @ table @ '' (''
        @ columnDefs keywords 0 cols
        @ primaryKeyDefs indexDefs
        @ foreignDefsText foreignDefs
        @ inlineIndexDefs indexDefs
        @ ''\<newline>);\<newline>''
        @ createIndexStmts table indexDefs)
       ''\<newline>''"

text \<open>\<open>DumpTableDDL\<close> (lines 118-132).\<close>

definition DumpTableDDL :: "string list \<Rightarrow> connection \<Rightarrow> string \<Rightarrow> error + string" where
  "DumpTableDDL keywords d table =
     (case getColumns d table of
        Inl err \<Rightarrow> Inl err
      | Inr cols \<Rightarrow>
          (case getIndexDefs d table of
             Inl err \<Rightarrow> Inl err
           | Inr indexDefs \<Rightarrow>
               (case getForeignDefs d table of
                  Inl err \<Rightarrow> Inl err
                | Inr (foreignDefs, foreignTableNames) \<Rightarrow>
                    Inr (buildDumpTableDDL keywords table cols indexDefs foreignDefs))))"

section \<open>Views and triggers\<close>

text \<open>
  The two regular expressions of lines 554-557 with their \<open>ReplaceAllString\<close>:
  \<open>;$\<close> matches one semicolon at the very end of the text, and \<open>[ ]+\<close> matches every
  maximal run of spaces.
\<close>

definition suffixSemicolon_ReplaceAllString :: "string \<Rightarrow> string \<Rightarrow> string" where
  "suffixSemicolon_ReplaceAllString src repl =
     (if src \<noteq> [] \<and> last src = CHR '';'' then butlast src @ repl else src)"

function spaces_ReplaceAllString :: "string \<Rightarrow> string \<Rightarrow> string" where
  "spaces_ReplaceAllString [] repl = []"
| "spaces_ReplaceAllString (c # cs) repl =
     (if c = CHR '' ''
      then repl @ spaces_ReplaceAllString (dropWhile (\<lambda>x. x = CHR '' '') cs) repl
      else c # spaces_ReplaceAllString cs repl)"
  by pat_completeness auto
termination
  by (relation "measure (\<lambda>(src, repl). length src)")
    (auto simp: le_imp_less_Suc length_dropWhile_le)

text \<open>\<open>Views\<close> (lines 559-592); \<open>viewDDL\<close> is lines 585-589.\<close>

definition viewDDL :: "string \<Rightarrow> string" where
  "viewDDL definition =
     (let definition = TrimSpace definition;
          definition = ReplaceAll definition (CHR 0x0A) [];
          definition = suffixSemicolon_ReplaceAllString definition [];
          definition = spaces_ReplaceAllString definition '' ''
      in definition @ '';'')"

fun scanViewRows :: "(string \<times> string) rows \<Rightarrow> string list \<Rightarrow> error + string list" where
  "scanViewRows [] ddls = Inr ddls"
| "scanViewRows (Inl err # rest) ddls = Inl err"
| "scanViewRows (Inr (viewName, definition) # rest) ddls =
     scanViewRows rest (ddls @ [viewDDL definition])"

definition Views :: "connection \<Rightarrow> error + string list" where
  "Views d =
     (case viewsQuery d of
        Inl err \<Rightarrow> Inl err
      | Inr rows \<Rightarrow> scanViewRows rows [])"

text \<open>\<open>Triggers\<close> (lines 594-617).\<close>

fun scanTriggerRows :: "string rows \<Rightarrow> string list \<Rightarrow> error + string list" where
  "scanTriggerRows [] triggers = Inr triggers"
| "scanTriggerRows (Inl err # rest) triggers = Inl err"
| "scanTriggerRows (Inr definition # rest) triggers = scanTriggerRows rest (triggers @ [definition])"

definition Triggers :: "connection \<Rightarrow> error + string list" where
  "Triggers d =
     (case triggersQuery d of
        Inl err \<Rightarrow> Inl err
      | Inr rows \<Rightarrow> scanTriggerRows rows [])"

declare spaces_ReplaceAllString.simps [simp del]

section \<open>The command line of mysqldef\<close>

text \<open>
  \<open>parseOptions\<close> (mysqldef.go, lines 22-103). The option struct is the record \<open>opts\<close>;
  \<open>adapter.Config\<close> and \<open>sqldef.Options\<close> are records with the fields that the
  function fills. What the function calls outside the file is a parameter, the record
  \<open>system\<close>: the parser of \<open>go-flags\<close> (it yields an error or the filled struct and the
  positional arguments), \<open>sqldef.ParseFiles\<close>, \<open>os.LookupEnv\<close> and
  \<open>term.ReadPassword\<close>. \<open>os.Exit\<close> and \<open>log.Fatal\<close> (which exits with code 1) end
  the run: the outcome is an exit code or the returned pair. The text printed on the way
  is left out.
\<close>

record opts =
  User :: string
  Password :: string
  Host :: string
  Port :: nat
  Socket :: string
  Prompt :: bool
  EnableCleartextPlugin :: bool
  File :: "string list"
  DryRun :: bool
  Export :: bool
  SkipDrop :: bool
  Help :: bool
  Version :: bool

record Config =
  DbName :: string
  User :: string
  Password :: string
  Host :: string
  Port :: int
  Socket :: string
  MySQLEnableCleartextPlugin :: bool

record ('d, 'c) Options =
  DesiredFile :: 'd
  CurrentFile :: "'c list"
  DryRun :: bool
  Export :: bool
  SkipDrop :: bool

record ('d, 'c) system =
  ParseArgs :: "string list \<Rightarrow> string + opts \<times> string list"
  ParseFiles :: "string list \<Rightarrow> 'd \<times> 'c list"
  LookupEnv :: "string \<Rightarrow> string option"
  ReadPassword :: "string + string"

datatype 'a outcome = Exit nat | Return 'a

text \<open>The conversion \<open>int(opts.Port)\<close> of a 64-bit \<open>uint\<close>.\<close>

definition uintToInt :: "nat \<Rightarrow> int" where
  "uintToInt n = (if n < 2 ^ 63 then int n else int n - 2 ^ 64)"

definition parseOptions ::
  "('d, 'c) system \<Rightarrow> string list \<Rightarrow> (Config \<times> ('d, 'c) Options) outcome"
where
  "parseOptions sys args =
     (case ParseArgs sys args of
        Inl err \<Rightarrow> Exit 1
      | Inr (opts, args) \<Rightarrow>
          if Help opts then Exit 0
          else if Version opts then Exit 0
          else
            (case ParseFiles sys (File opts) of (desiredFile, currentFile) \<Rightarrow>
               (let options = \<lparr> DesiredFile = desiredFile, CurrentFile = currentFile,
                                 Options.DryRun = opts.DryRun opts,
                                 Options.Export = opts.Export opts,
                                 Options.SkipDrop = opts.SkipDrop opts \<rparr>
                in case (if length currentFile = 0
                         then (if length args = 0 then Inl 1
                               else if length args > 1 then Inl 1
                               else Inr (args ! 0))
                         else Inr []) of
                     Inl code \<Rightarrow> Exit code
                   | Inr database \<Rightarrow>
                       (let password = (case LookupEnv sys ''MYSQL_PWD'' of
                                          Some v \<Rightarrow> v
                                        | None \<Rightarrow> opts.Password opts)
                        in case (if Prompt opts
                                 then (case ReadPassword sys of
                                         Inl err \<Rightarrow> Inl 1
                                       | Inr pass \<Rightarrow> Inr pass)
                                 else Inr password) of
                             Inl code \<Rightarrow> Exit code
                           | Inr password \<Rightarrow>
                               Return (\<lparr> DbName = database,
                                         Config.User = opts.User opts,
                                         Config.Password = password,
                                         Config.Host = opts.Host opts,
                                         Config.Port = uintToInt (opts.Port opts),
                                         Config.Socket = opts.Socket opts,
                                         MySQLEnableCleartextPlugin =
                                           EnableCleartextPlugin opts \<rparr>,
                                       options)))))"

section \<open>Example inputs\<close>

definition emptyDb :: connection where
  "emptyDb = \<lparr> tablesQuery = Inr [], columnsQuery = (\<lambda>schema table. Inr []),
     indexesQuery = (\<lambda>schema table. Inr []), indexColumnsQuery = (\<lambda>schema table. Inr []),
     foreignKeysQuery = (\<lambda>schema table. Inr []), viewsQuery = Inr [], triggersQuery = Inr [] \<rparr>"

definition fkTo :: "string \<Rightarrow> foreignRow" where
  "fkTo t = \<lparr> f_name = ''fk_'' @ t, parent_column = t @ ''_id'', referenced_table = t,
     referenced_column = ''id'', update_referential_action_desc = ''NO_ACTION'',
     delete_referential_action_desc = ''CASCADE'', f_is_not_for_replication = False \<rparr>"

text \<open>Four tables: \<open>d\<close> references \<open>a\<close>, \<open>x\<close> references itself, \<open>y\<close> references \<open>x\<close>.\<close>

definition fkDb :: connection where
  "fkDb = emptyDb
     \<lparr> tablesQuery := Inr [Inr (''dbo'', ''a''), Inr (''dbo'', ''d''), Inr (''dbo'', ''x''),
                           Inr (''dbo'', ''y'')],
       foreignKeysQuery := (\<lambda>schema table.
         if table = ''d'' then Inr [Inr (fkTo ''a'')]
         else if table = ''x'' \<or> table = ''y'' then Inr [Inr (fkTo ''x'')]
         else Inr []) \<rparr>"

definition fkMap :: "string \<rightharpoonup> string list" where
  "fkMap = [''dbo.a'' \<mapsto> [], ''dbo.d'' \<mapsto> [''dbo.a''], ''dbo.x'' \<mapsto> [''dbo.x''],
            ''dbo.y'' \<mapsto> [''dbo.x'']]"

definition nvarchar200 :: column where
  "nvarchar200 = \<lparr> Name = ''title'', dataType = ''nvarchar'', MaxLength = ''200'', Scale = ''0'',
     Nullable = True, Identity = None, DefaultName = [], DefaultVal = [], Check = None \<rparr>"

definition varcharMax :: column where
  "varcharMax = \<lparr> Name = ''body'', dataType = ''varchar'', MaxLength = ''-1'', Scale = ''0'',
     Nullable = True, Identity = None, DefaultName = [], DefaultVal = [], Check = None \<rparr>"

definition offset7 :: column where
  "offset7 = \<lparr> Name = ''at'', dataType = ''datetimeoffset'', MaxLength = ''10'', Scale = ''7'',
     Nullable = False, Identity = None, DefaultName = [], DefaultVal = [], Check = None \<rparr>"

definition twoSemicolonsDb :: connection where
  "twoSemicolonsDb = emptyDb
     \<lparr> viewsQuery := Inr [Inr (''v'', ''CREATE VIEW v AS SELECT 1 AS one;;\<newline>'')] \<rparr>"

definition viewDb :: connection where
  "viewDb = emptyDb
     \<lparr> viewsQuery := Inr [Inr (''v'', ''  CREATE   VIEW v AS\<newline> SELECT  1 AS one ; \<newline>'')] \<rparr>"

definition triggerA :: string where
  "triggerA = ''CREATE TRIGGER trg_a ON dbo.t AFTER INSERT AS SELECT 1''"

definition triggerB :: string where
  "triggerB = ''CREATE TRIGGER trg_b ON dbo.t AFTER DELETE AS SELECT 2''"

definition primaryKeyRow :: indexRow where
  "primaryKeyRow = \<lparr> index_name = ''pk_t'', is_primary_key = True, is_unique = True,
     type_desc = ''CLUSTERED'', is_padded = False, fill_factor = ''0'', ignore_dup_key = False,
     no_recompute = False, is_incremental = False, allow_row_locks = True,
     allow_page_locks = True \<rparr>"

definition plainIndexRow :: indexRow where
  "plainIndexRow = \<lparr> index_name = ''ix_a'', is_primary_key = False, is_unique = False,
     type_desc = ''NONCLUSTERED'', is_padded = False, fill_factor = ''0'', ignore_dup_key = False,
     no_recompute = False, is_incremental = False, allow_row_locks = True,
     allow_page_locks = True \<rparr>"

definition indexColumnRows :: "indexColumnRow rows" where
  "indexColumnRows =
     [Inr \<lparr> ic_index_name = ''pk_t'', column_name = ''id'', is_descending_key = False,
            is_included_column = False \<rparr>,
      Inr \<lparr> ic_index_name = ''ix_a'', column_name = ''a'', is_descending_key = True,
            is_included_column = False \<rparr>]"

definition indexDb :: "indexRow list \<Rightarrow> connection" where
  "indexDb irows = emptyDb
     \<lparr> indexesQuery := (\<lambda>schema table. Inr (map Inr irows)),
       indexColumnsQuery := (\<lambda>schema table. Inr indexColumnRows) \<rparr>"

definition intColumnRow :: "string \<Rightarrow> columnRow" where
  "intColumnRow n = \<lparr> c_name = n, tp_name = ''int'', c_max_length = ''4'', c_scale = ''0'',
     c_is_nullable = False, c_is_identity = False, ic_seed_value = None,
     ic_increment_value = None, ic_is_not_for_replication = None, c_default_object_id = ''0'',
     default_name = None, default_definition = None, cc_name = None, cc_definition = None,
     cc_is_not_for_replication = None \<rparr>"

definition coverIndexRow :: indexRow where
  "coverIndexRow = \<lparr> index_name = ''ix_cover'', is_primary_key = False, is_unique = False,
     type_desc = ''NONCLUSTERED'', is_padded = False, fill_factor = ''0'', ignore_dup_key = False,
     no_recompute = False, is_incremental = False, allow_row_locks = True,
     allow_page_locks = True \<rparr>"

text \<open>
  A table \<open>dbo.t\<close> with the columns \<open>id\<close> and \<open>key\<close>, a primary key on \<open>id\<close>, an index
  on \<open>key\<close>, an index on \<open>id\<close> that includes \<open>key\<close>, and a foreign key to \<open>dbo.x\<close>.
\<close>

definition tableDb :: connection where
  "tableDb = emptyDb
     \<lparr> columnsQuery := (\<lambda>schema table. Inr [Inr (intColumnRow ''id''), Inr (intColumnRow ''key'')]),
       indexesQuery := (\<lambda>schema table.
         Inr [Inr primaryKeyRow, Inr plainIndexRow, Inr coverIndexRow]),
       indexColumnsQuery := (\<lambda>schema table.
         Inr [Inr \<lparr> ic_index_name = ''pk_t'', column_name = ''id'', is_descending_key = False,
                    is_included_column = False \<rparr>,
              Inr \<lparr> ic_index_name = ''ix_a'', column_name = ''key'', is_descending_key = True,
                    is_included_column = False \<rparr>,
              Inr \<lparr> ic_index_name = ''ix_cover'', column_name = ''id'', is_descending_key = False,
                    is_included_column = False \<rparr>,
              Inr \<lparr> ic_index_name = ''ix_cover'', column_name = ''key'', is_descending_key = False,
                    is_included_column = True \<rparr>]),
       foreignKeysQuery := (\<lambda>schema table. Inr [Inr (fkTo ''x'')]) \<rparr>"

text \<open>The same table with the covering index only.\<close>

definition coverDb :: connection where
  "coverDb = tableDb \<lparr> indexesQuery := (\<lambda>schema table. Inr [Inr coverIndexRow]),
     indexColumnsQuery := (\<lambda>schema table.
         Inr [Inr \<lparr> ic_index_name = ''ix_cover'', column_name = ''id'', is_descending_key = False,
                    is_included_column = False \<rparr>,
              Inr \<lparr> ic_index_name = ''ix_cover'', column_name = ''key'', is_descending_key = False,
                    is_included_column = True \<rparr>]),
     foreignKeysQuery := (\<lambda>schema table. Inr []) \<rparr>"

definition tableColumns :: "column list" where
  "tableColumns =
     [\<lparr> Name = ''id'', dataType = ''int'', MaxLength = ''4'', Scale = ''0'', Nullable = False,
         Identity = None, DefaultName = [], DefaultVal = [], Check = None \<rparr>,
      \<lparr> Name = ''key'', dataType = ''int'', MaxLength = ''4'', Scale = ''0'', Nullable = False,
         Identity = None, DefaultName = [], DefaultVal = [], Check = None \<rparr>]"

definition tableIndexDefs :: "indexDef list" where
  "tableIndexDefs =
     [(indexDefinition plainIndexRow)\<lparr> columns := [''[key] DESC''] \<rparr>,
      (indexDefinition coverIndexRow)\<lparr> columns := [''[id]''], included := [''[key]''] \<rparr>,
      (indexDefinition primaryKeyRow)\<lparr> columns := [''[id]''] \<rparr>]"

definition tableForeignDef :: string where
  "tableForeignDef = ''CONSTRAINT [fk_x] FOREIGN KEY ([x_id]) REFERENCES dbo.x ([id]) ON UPDATE NO ACTION ON DELETE CASCADE''"

text \<open>The option struct with the defaults of its tags, and no flag given.\<close>

definition defaultOpts :: opts where
  "defaultOpts = \<lparr> opts.User = ''root'', opts.Password = [], opts.Host = ''127.0.0.1'',
     opts.Port = 3306, opts.Socket = [], Prompt = False, EnableCleartextPlugin = False,
     File = [''-''], opts.DryRun = False, opts.Export = False, opts.SkipDrop = False,
     Help = False, Version = False \<rparr>"

text \<open>What the parser yields for the argument lists used below.\<close>

definition exampleParseArgs :: "string list \<Rightarrow> string + opts \<times> string list" where
  "exampleParseArgs args =
     (if args = [] then Inr (defaultOpts, [])
      else if args = [''db''] then Inr (defaultOpts, [''db''])
      else if args = [''db'', ''db2''] then Inr (defaultOpts, [''db'', ''db2''])
      else if args = [''--help''] then Inr (defaultOpts\<lparr> Help := True \<rparr>, [])
      else if args = [''--version'', ''db''] then Inr (defaultOpts\<lparr> Version := True \<rparr>, [''db''])
      else if args = [''--password'', ''flagpw'', ''db'']
        then Inr (defaultOpts\<lparr> opts.Password := ''flagpw'' \<rparr>, [''db''])
      else if args = [''--password-prompt'', ''--password'', ''flagpw'', ''db'']
        then Inr (defaultOpts\<lparr> opts.Password := ''flagpw'', Prompt := True \<rparr>, [''db''])
      else Inl ''unknown flag'')"

text \<open>
  Modelled from the spec: \<open>sqldef.ParseFiles\<close> is not under src/. Of the \<open>--file\<close>
  entries the first is the desired schema, the remainder the current one.
\<close>

definition exampleParseFiles :: "string list \<Rightarrow> string \<times> string list" where
  "exampleParseFiles files = (case files of [] \<Rightarrow> ([], []) | f # rest \<Rightarrow> (f, rest))"

definition exampleSystem :: "string option \<Rightarrow> string + string \<Rightarrow> (string, string) system" where
  "exampleSystem mysqlPwd typed =
     \<lparr> ParseArgs = exampleParseArgs, ParseFiles = exampleParseFiles,
       LookupEnv = (\<lambda>key. if key = ''MYSQL_PWD'' then mysqlPwd else None),
       ReadPassword = typed \<rparr>"

definition exampleConfig :: "string \<Rightarrow> Config" where
  "exampleConfig password = \<lparr> DbName = ''db'', Config.User = ''root'', Config.Password = password,
     Config.Host = ''127.0.0.1'', Config.Port = 3306, Config.Socket = [],
     MySQLEnableCleartextPlugin = False \<rparr>"

definition exampleOptions :: "(string, string) Options" where
  "exampleOptions = \<lparr> DesiredFile = ''-'', CurrentFile = [], Options.DryRun = False,
     Options.Export = False, Options.SkipDrop = False \<rparr>"

section \<open>Qualified table names\<close>

lemma SplitN2_first_sep:
  "sep \<notin> set a \<Longrightarrow> SplitN2 (a @ sep # b) sep = [a, b]"
  by (induction a) (auto simp: SplitN2_def)

text \<open>
  Claim C7. A table name without a dot is paired with the default schema \<open>dbo\<close>; a name
  with a dot is cut at its first dot into the schema and the remainder.
\<close>

theorem splitTableName_default_dbo:
  "(CHR ''.'' \<notin> set table \<longrightarrow> splitTableName table = (''dbo'', table)) \<and>
   (\<forall>schema rest. table = schema @ ''.'' @ rest \<and> CHR ''.'' \<notin> set schema
      \<longrightarrow> splitTableName table = (schema, rest))"
proof (intro conjI impI allI)
  assume "CHR ''.'' \<notin> set table"
  then show "splitTableName table = (''dbo'', table)"
    by (simp add: splitTableName_def SplitN2_def)
next
  fix schema rest
  assume "table = schema @ ''.'' @ rest \<and> CHR ''.'' \<notin> set schema"
  then have "SplitN2 table (CHR ''.'') = [schema, rest]"
    using SplitN2_first_sep [of "CHR ''.''" schema rest] by simp
  then show "splitTableName table = (schema, rest)"
    by (simp add: splitTableName_def)
qed

theorem splitTableName_default_dbo_witness:
  "CHR ''.'' \<notin> set ''users'' \<and> splitTableName ''users'' = (''dbo'', ''users'') \<and>
   ''sales.order.items'' = ''sales'' @ ''.'' @ ''order.items'' \<and> CHR ''.'' \<notin> set ''sales'' \<and>
   splitTableName ''sales.order.items'' = (''sales'', ''order.items'')"
proof -
  have a: "CHR ''.'' \<notin> set ''users''" by simp
  have b: "''sales.order.items'' = ''sales'' @ ''.'' @ ''order.items'' \<and> CHR ''.'' \<notin> set ''sales''"
    by simp
  have c: "splitTableName ''users'' = (''dbo'', ''users'')"
    by (rule splitTableName_default_dbo [THEN conjunct1, THEN mp, OF a])
  have d: "splitTableName ''sales.order.items'' = (''sales'', ''order.items'')"
    by (rule splitTableName_default_dbo [THEN conjunct2, rule_format, OF b])
  from a b c d show ?thesis by (intro conjI) (rule a c d b [THEN conjunct1] b [THEN conjunct2])+
qed

section \<open>The length of a column\<close>

text \<open>
  Claim C9. A length is reported only for the seven listed types; for the character and
  binary types a stored length of -1 is rendered as \<open>max\<close>; for \<open>nvarchar\<close> and
  \<open>nchar\<close> the rendered length is the stored number halved; \<open>datetimeoffset\<close> with
  scale 7 has no length.
\<close>

theorem getLength_cases:
  "(snd (getLength c) \<longrightarrow>
      dataType c \<in> {''char'', ''varchar'', ''binary'', ''varbinary'', ''nvarchar'', ''nchar'',
                     ''datetimeoffset''}) \<and>
   (dataType c \<in> {''char'', ''varchar'', ''binary'', ''varbinary'', ''nvarchar'', ''nchar''} \<and>
      MaxLength c = ''-1'' \<longrightarrow> getLength c = (''max'', True)) \<and>
   (\<forall>n. dataType c \<in> {''nvarchar'', ''nchar''} \<and> MaxLength c \<noteq> ''-1'' \<and>
      Atoi (MaxLength c) = Some n \<longrightarrow> getLength c = (Itoa (goDiv n 2), True)) \<and>
   (dataType c = ''datetimeoffset'' \<and> Scale c = ''7'' \<longrightarrow> getLength c = ([], False))"
  by (simp add: getLength_def split: option.split)

theorem getLength_cases_witness:
  "snd (getLength nvarchar200) \<and>
   dataType nvarchar200 \<in> {''char'', ''varchar'', ''binary'', ''varbinary'', ''nvarchar'',
     ''nchar'', ''datetimeoffset''} \<and>
   getLength varcharMax = (''max'', True) \<and>
   Atoi (MaxLength nvarchar200) = Some 200 \<and>
   getLength nvarchar200 = (''100'', True) \<and>
   getLength offset7 = ([], False)"
proof -
  have a: "Atoi (MaxLength nvarchar200) = Some 200"
    by (simp add: nvarchar200_def Atoi_def isDigit_def parseDigits_def digitVal_def)
  have h3: "dataType nvarchar200 \<in> {''nvarchar'', ''nchar''} \<and> MaxLength nvarchar200 \<noteq> ''-1'' \<and>
      Atoi (MaxLength nvarchar200) = Some 200"
    using a by (simp add: nvarchar200_def)
  have g: "getLength nvarchar200 = (Itoa (goDiv 200 2), True)"
    by (rule getLength_cases [THEN conjunct2, THEN conjunct2, THEN conjunct1, rule_format, OF h3])
  then have g': "getLength nvarchar200 = (''100'', True)"
    by (simp add: Itoa_def goDiv_def)
  then have s: "snd (getLength nvarchar200)"
    by simp
  have m: "dataType nvarchar200 \<in> {''char'', ''varchar'', ''binary'', ''varbinary'', ''nvarchar'',
     ''nchar'', ''datetimeoffset''}"
    by (rule getLength_cases [THEN conjunct1, rule_format, OF s])
  have h2: "dataType varcharMax \<in> {''char'', ''varchar'', ''binary'', ''varbinary'', ''nvarchar'',
      ''nchar''} \<and> MaxLength varcharMax = ''-1''"
    by (simp add: varcharMax_def)
  have v: "getLength varcharMax = (''max'', True)"
    by (rule getLength_cases [THEN conjunct2, THEN conjunct1, rule_format, OF h2])
  have h4: "dataType offset7 = ''datetimeoffset'' \<and> Scale offset7 = ''7''"
    by (simp add: offset7_def)
  have z: "getLength offset7 = ([], False)"
    by (rule getLength_cases [THEN conjunct2, THEN conjunct2, THEN conjunct2, rule_format, OF h4])
  show ?thesis
    by (intro conjI) (rule s m v a g' z)+
qed

section \<open>Properties of the dependency order\<close>

lemma noDeps_iff: "noDeps addedTables fs \<longleftrightarrow> set fs \<subseteq> dom addedTables"
  by (induction fs) auto

lemma mset_swap_remove:
  assumes "i < length xs"
  shows "mset (butlast (xs[i := xs ! (length xs - 1)])) + {#xs ! i#} = mset xs"
proof -
  from assms have "xs \<noteq> []" by auto
  then obtain ys l where xs: "xs = ys @ [l]"
    by (metis rev_exhaust)
  show ?thesis
  proof (cases "i < length ys")
    case True
    then have "butlast (xs[i := xs ! (length xs - 1)]) = ys[i := l]"
      by (simp add: xs list_update_append1)
    moreover from True have "xs ! i = ys ! i"
      by (simp add: xs nth_append)
    moreover from True have "mset (ys[i := l]) + {#ys ! i#} = mset ys + {#l#}"
      by (simp add: mset_update)
    ultimately show ?thesis by (simp add: xs)
  next
    case False
    with assms have "i = length ys" by (simp add: xs)
    then show ?thesis by (simp add: xs)
  qed
qed

text \<open>One pass keeps every table, in one of the two lists.\<close>

lemma innerLoop_mset:
  "innerLoop foreignTableMap i tables addedTables ordered = (tables', addedTables', ordered')
     \<Longrightarrow> mset ordered' + mset tables' = mset ordered + mset tables"
proof (induction foreignTableMap i tables addedTables ordered rule: innerLoop.induct)
  case (1 foreignTableMap i tables addedTables ordered)
  show ?case
  proof (cases "i < length tables")
    case False
    with "1.prems" show ?thesis by (simp add: innerLoop_done)
  next
    case inb: True
    show ?thesis
    proof (cases "noDeps addedTables (fTableNamesOf foreignTableMap (tables ! i))")
      case True
      from "1.prems" have "innerLoop foreignTableMap i
          (butlast (tables[i := tables ! (length tables - 1)]))
          (addedTables(tables ! i \<mapsto> True)) (ordered @ [tables ! i])
          = (tables', addedTables', ordered')"
        by (simp add: innerLoop_add [OF inb True])
      then have "mset ordered' + mset tables' =
          mset (ordered @ [tables ! i]) + mset (butlast (tables[i := tables ! (length tables - 1)]))"
        by (rule "1.IH"(1) [OF inb refl True])
      also have "\<dots> = mset ordered + (mset (butlast (tables[i := tables ! (length tables - 1)]))
          + {#tables ! i#})"
        by simp
      also have "\<dots> = mset ordered + mset tables"
        by (simp only: mset_swap_remove [OF inb])
      finally show ?thesis .
    next
      case False
      from "1.prems" have "innerLoop foreignTableMap (i + 1) tables addedTables ordered
          = (tables', addedTables', ordered')"
        by (simp add: innerLoop_skip [OF inb False])
      then show ?thesis
        by (rule "1.IH"(2) [OF inb refl False])
    qed
  qed
qed

text \<open>
  One pass keeps the invariant of the ordered list: its tables are the keys of
  \<open>addedTables\<close>, and every table of it comes after all the tables it references.
\<close>

lemma innerLoop_ordered:
  assumes "innerLoop foreignTableMap i tables addedTables ordered = (tables', addedTables', ordered')"
    and "dom addedTables = set ordered"
    and "\<forall>k < length ordered.
           set (fTableNamesOf foreignTableMap (ordered ! k)) \<subseteq> set (take k ordered)"
  shows "dom addedTables' = set ordered' \<and>
         (\<forall>k < length ordered'.
            set (fTableNamesOf foreignTableMap (ordered' ! k)) \<subseteq> set (take k ordered'))"
  using assms
proof (induction foreignTableMap i tables addedTables ordered rule: innerLoop.induct)
  case (1 foreignTableMap i tables addedTables ordered)
  show ?case
  proof (cases "i < length tables")
    case False
    with "1.prems" show ?thesis by (simp add: innerLoop_done)
  next
    case inb: True
    show ?thesis
    proof (cases "noDeps addedTables (fTableNamesOf foreignTableMap (tables ! i))")
      case True
      let ?t = "tables ! i"
      from "1.prems"(1) have run: "innerLoop foreignTableMap i
          (butlast (tables[i := tables ! (length tables - 1)]))
          (addedTables(?t \<mapsto> True)) (ordered @ [?t])
          = (tables', addedTables', ordered')"
        by (simp add: innerLoop_add [OF inb True])
      have d: "dom (addedTables(?t \<mapsto> True)) = set (ordered @ [?t])"
        using "1.prems"(2) by simp
      have sub: "set (fTableNamesOf foreignTableMap ?t) \<subseteq> set ordered"
        using True "1.prems"(2) by (simp add: noDeps_iff)
      have o: "\<forall>k < length (ordered @ [?t]).
          set (fTableNamesOf foreignTableMap ((ordered @ [?t]) ! k)) \<subseteq> set (take k (ordered @ [?t]))"
      proof (intro allI impI)
        fix k assume k: "k < length (ordered @ [?t])"
        show "set (fTableNamesOf foreignTableMap ((ordered @ [?t]) ! k))
            \<subseteq> set (take k (ordered @ [?t]))"
        proof (cases "k < length ordered")
          case True
          with "1.prems"(3) show ?thesis by (simp add: nth_append)
        next
          case False
          with k have "k = length ordered" by simp
          with sub show ?thesis by simp
        qed
      qed
      show ?thesis
        by (rule "1.IH"(1) [OF inb refl True run d o])
    next
      case False
      from "1.prems"(1) have run: "innerLoop foreignTableMap (i + 1) tables addedTables ordered
          = (tables', addedTables', ordered')"
        by (simp add: innerLoop_skip [OF inb False])
      show ?thesis
        by (rule "1.IH"(2) [OF inb refl False run "1.prems"(2) "1.prems"(3)])
    qed
  qed
qed

text \<open>A pass that removes nothing has found every table from \<open>i\<close> on still waiting.\<close>

lemma innerLoop_no_progress:
  assumes "innerLoop foreignTableMap i tables addedTables ordered = (tables', addedTables', ordered')"
    and "length tables' = length tables"
  shows "tables' = tables \<and> addedTables' = addedTables \<and> ordered' = ordered \<and>
         (\<forall>j. i \<le> j \<and> j < length tables
              \<longrightarrow> \<not> noDeps addedTables (fTableNamesOf foreignTableMap (tables ! j)))"
  using assms
proof (induction foreignTableMap i tables addedTables ordered rule: innerLoop.induct)
  case (1 foreignTableMap i tables addedTables ordered)
  show ?case
  proof (cases "i < length tables")
    case False
    with "1.prems" show ?thesis by (auto simp: innerLoop_done)
  next
    case inb: True
    show ?thesis
    proof (cases "noDeps addedTables (fTableNamesOf foreignTableMap (tables ! i))")
      case True
      from "1.prems"(1) have "innerLoop foreignTableMap i
          (butlast (tables[i := tables ! (length tables - 1)]))
          (addedTables(tables ! i \<mapsto> True)) (ordered @ [tables ! i])
          = (tables', addedTables', ordered')"
        by (simp add: innerLoop_add [OF inb True])
      then have "length tables' \<le> length (butlast (tables[i := tables ! (length tables - 1)]))"
        by (rule innerLoop_length_le)
      with inb "1.prems"(2) have False by simp
      then show ?thesis ..
    next
      case False
      from "1.prems"(1) have run: "innerLoop foreignTableMap (i + 1) tables addedTables ordered
          = (tables', addedTables', ordered')"
        by (simp add: innerLoop_skip [OF inb False])
      have ih: "tables' = tables \<and> addedTables' = addedTables \<and> ordered' = ordered \<and>
         (\<forall>j. i + 1 \<le> j \<and> j < length tables
              \<longrightarrow> \<not> noDeps addedTables (fTableNamesOf foreignTableMap (tables ! j)))"
        by (rule "1.IH"(2) [OF inb refl False run "1.prems"(2)])
      have "\<not> noDeps addedTables (fTableNamesOf foreignTableMap (tables ! j))"
        if "i \<le> j \<and> j < length tables" for j
      proof (cases "j = i")
        case True
        with False show ?thesis by simp
      next
        case False
        with that have "i + 1 \<le> j \<and> j < length tables" by simp
        with ih show ?thesis by blast
      qed
      with ih show ?thesis by blast
    qed
  qed
qed

text \<open>Unfolding the outer loop once.\<close>

lemma outerLoop_empty:
  "outerLoop foreignTableMap [] addedTables ordered = ([], addedTables, ordered)"
  by (subst outerLoop.simps) simp

lemma outerLoop_break:
  "tables \<noteq> [] \<Longrightarrow>
   length (fst (innerLoop foreignTableMap 0 tables addedTables ordered)) = length tables \<Longrightarrow>
   outerLoop foreignTableMap tables addedTables ordered =
   innerLoop foreignTableMap 0 tables addedTables ordered"
  by (subst outerLoop.simps) (simp add: Let_def)

lemma outerLoop_again:
  "tables \<noteq> [] \<Longrightarrow>
   innerLoop foreignTableMap 0 tables addedTables ordered = (tables', addedTables', ordered') \<Longrightarrow>
   length tables' \<noteq> length tables \<Longrightarrow>
   outerLoop foreignTableMap tables addedTables ordered =
   outerLoop foreignTableMap tables' addedTables' ordered'"
  by (subst outerLoop.simps) (simp add: Let_def)

text \<open>The whole loop: the invariant, the leftover, and the tables kept.\<close>

lemma outerLoop_result:
  assumes "outerLoop foreignTableMap tables addedTables ordered = (tables', addedTables', ordered')"
    and "dom addedTables = set ordered"
    and "\<forall>k < length ordered.
           set (fTableNamesOf foreignTableMap (ordered ! k)) \<subseteq> set (take k ordered)"
  shows "dom addedTables' = set ordered' \<and>
         (\<forall>k < length ordered'.
            set (fTableNamesOf foreignTableMap (ordered' ! k)) \<subseteq> set (take k ordered')) \<and>
         (\<forall>t \<in> set tables'. \<not> noDeps addedTables' (fTableNamesOf foreignTableMap t)) \<and>
         mset ordered' + mset tables' = mset ordered + mset tables"
  using assms
proof (induction "length tables" arbitrary: tables addedTables ordered rule: less_induct)
  case less
  show ?case
  proof (cases "tables = []")
    case True
    with less.prems show ?thesis by (simp add: outerLoop_empty)
  next
    case ne: False
    obtain t1 a1 o1 where pass: "innerLoop foreignTableMap 0 tables addedTables ordered = (t1, a1, o1)"
      by (cases "innerLoop foreignTableMap 0 tables addedTables ordered") auto
    have inv1: "dom a1 = set o1 \<and>
        (\<forall>k < length o1. set (fTableNamesOf foreignTableMap (o1 ! k)) \<subseteq> set (take k o1))"
      by (rule innerLoop_ordered [OF pass less.prems(2) less.prems(3)])
    have ms1: "mset o1 + mset t1 = mset ordered + mset tables"
      by (rule innerLoop_mset [OF pass])
    show ?thesis
    proof (cases "length t1 = length tables")
      case True
      with ne pass less.prems(1) have res: "tables' = t1" "addedTables' = a1" "ordered' = o1"
        by (simp_all add: outerLoop_break)
      from innerLoop_no_progress [OF pass True]
      have same: "t1 = tables" "a1 = addedTables"
        and wait: "\<forall>j. 0 \<le> j \<and> j < length tables
              \<longrightarrow> \<not> noDeps addedTables (fTableNamesOf foreignTableMap (tables ! j))"
        by blast+
      have "\<forall>t \<in> set tables'. \<not> noDeps addedTables' (fTableNamesOf foreignTableMap t)"
        using wait by (auto simp: res same in_set_conv_nth)
      with inv1 ms1 show ?thesis by (simp add: res)
    next
      case False
      from innerLoop_length_le [OF pass] False have lt: "length t1 < length tables" by simp
      from less.prems(1) have run: "outerLoop foreignTableMap t1 a1 o1 = (tables', addedTables', ordered')"
        by (simp add: outerLoop_again [OF ne pass False])
      from less.hyps [OF lt run] inv1
      have "dom addedTables' = set ordered' \<and>
         (\<forall>k < length ordered'.
            set (fTableNamesOf foreignTableMap (ordered' ! k)) \<subseteq> set (take k ordered')) \<and>
         (\<forall>t \<in> set tables'. \<not> noDeps addedTables' (fTableNamesOf foreignTableMap t)) \<and>
         mset ordered' + mset tables' = mset o1 + mset t1"
        by blast
      with ms1 show ?thesis by simp
    qed
  qed
qed

text \<open>A table that comes after all the tables it references is on no reference cycle.\<close>

lemma ordered_reaches_earlier:
  assumes ord: "\<forall>k < length ordered.
           set (fTableNamesOf foreignTableMap (ordered ! k)) \<subseteq> set (take k ordered)"
    and path: "(a, b) \<in> {(t, f). f \<in> set (fTableNamesOf foreignTableMap t)}\<^sup>+"
  shows "\<forall>k < length ordered. ordered ! k = a \<longrightarrow> (\<exists>j < k. ordered ! j = b)"
  using path
proof (induction rule: trancl_induct)
  case (base b)
  show ?case
  proof (intro allI impI)
    fix k assume k: "k < length ordered" and a: "ordered ! k = a"
    from base a have "b \<in> set (fTableNamesOf foreignTableMap (ordered ! k))" by simp
    with ord k have "b \<in> set (take k ordered)" by blast
    then obtain j where "j < length (take k ordered)" "take k ordered ! j = b"
      by (auto simp: in_set_conv_nth)
    with k have "j < k \<and> ordered ! j = b" by simp
    then show "\<exists>j < k. ordered ! j = b" by blast
  qed
next
  case (step b c)
  show ?case
  proof (intro allI impI)
    fix k assume k: "k < length ordered" and a: "ordered ! k = a"
    with step.IH obtain j where j: "j < k" "ordered ! j = b" by blast
    from step.hyps(2) j have "c \<in> set (fTableNamesOf foreignTableMap (ordered ! j))" by simp
    moreover from j k have "j < length ordered" by simp
    ultimately have "c \<in> set (take j ordered)" using ord by blast
    then obtain m where "m < length (take j ordered)" "take j ordered ! m = c"
      by (auto simp: in_set_conv_nth)
    with j k have "m < k \<and> ordered ! m = c" by simp
    then show "\<exists>j < k. ordered ! j = c" by blast
  qed
qed

lemma ordered_not_cyclic:
  assumes ord: "\<forall>k < length ordered.
           set (fTableNamesOf foreignTableMap (ordered ! k)) \<subseteq> set (take k ordered)"
    and cyc: "(t, t) \<in> {(t, f). f \<in> set (fTableNamesOf foreignTableMap t)}\<^sup>+"
  shows "t \<notin> set ordered"
proof -
  have "k < length ordered \<Longrightarrow> ordered ! k \<noteq> t" for k
  proof (induction k rule: less_induct)
    case (less k)
    show ?case
    proof
      assume "ordered ! k = t"
      with ordered_reaches_earlier [OF ord cyc] less.prems
      obtain j where "j < k" "ordered ! j = t" by blast
      with less.IH [of j] less.prems show False by simp
    qed
  qed
  then show ?thesis by (auto simp: in_set_conv_nth)
qed

text \<open>
  Claim C1. When the queries succeed, \<open>TableNames\<close> returns the tables the loop has
  ordered, followed by the leftover. Every ordered table comes after all the tables it
  references; every leftover table still references a table that was never ordered; and
  every table on a cycle of references is in the leftover, at the end.
\<close>

theorem TableNames_dependency_order:
  assumes "tablesQuery d = Inr rows"
    and "scanTableRows rows [] = Inr tables"
    and "buildForeignTableMap d tables Map.empty = Inr foreignTableMap"
    and "outerLoop foreignTableMap tables Map.empty [] = (leftover, addedTables, ordered)"
  shows "TableNames d = Inr (ordered @ leftover) \<and>
    (\<forall>k < length ordered.
       set (fTableNamesOf foreignTableMap (ordered ! k)) \<subseteq> set (take k ordered)) \<and>
    (\<forall>t \<in> set leftover. \<exists>f \<in> set (fTableNamesOf foreignTableMap t). f \<notin> set ordered) \<and>
    (\<forall>t \<in> set tables.
       (t, t) \<in> {(t, f). f \<in> set (fTableNamesOf foreignTableMap t)}\<^sup>+ \<longrightarrow> t \<in> set leftover)"
proof -
  have res: "dom addedTables = set ordered \<and>
      (\<forall>k < length ordered.
         set (fTableNamesOf foreignTableMap (ordered ! k)) \<subseteq> set (take k ordered)) \<and>
      (\<forall>t \<in> set leftover. \<not> noDeps addedTables (fTableNamesOf foreignTableMap t)) \<and>
      mset ordered + mset leftover = mset [] + mset tables"
    by (rule outerLoop_result [OF assms(4)]) simp_all
  then have ord: "\<forall>k < length ordered.
         set (fTableNamesOf foreignTableMap (ordered ! k)) \<subseteq> set (take k ordered)"
    by blast
  have "TableNames d = Inr (ordered @ leftover)"
    by (simp add: TableNames_def orderByDependency_def assms)
  moreover have "\<forall>t \<in> set leftover. \<exists>f \<in> set (fTableNamesOf foreignTableMap t). f \<notin> set ordered"
  proof
    fix t assume "t \<in> set leftover"
    with res have "\<not> noDeps addedTables (fTableNamesOf foreignTableMap t)"
      by blast
    moreover from res have "dom addedTables = set ordered"
      by blast
    ultimately have "\<not> set (fTableNamesOf foreignTableMap t) \<subseteq> set ordered"
      by (simp add: noDeps_iff)
    then show "\<exists>f \<in> set (fTableNamesOf foreignTableMap t). f \<notin> set ordered"
      by blast
  qed
  moreover have "\<forall>t \<in> set tables.
       (t, t) \<in> {(t, f). f \<in> set (fTableNamesOf foreignTableMap t)}\<^sup>+ \<longrightarrow> t \<in> set leftover"
  proof (intro ballI impI)
    fix t
    assume t: "t \<in> set tables"
      and cyc: "(t, t) \<in> {(t, f). f \<in> set (fTableNamesOf foreignTableMap t)}\<^sup>+"
    from res have "set ordered \<union> set leftover = set tables"
      by (metis add_cancel_left_left mset.simps(1) set_mset_mset set_mset_union)
    moreover from ordered_not_cyclic [OF ord cyc] have "t \<notin> set ordered" .
    ultimately show "t \<in> set leftover" using t by blast
  qed
  ultimately show ?thesis using ord by blast
qed

theorem TableNames_dependency_order_witness:
  "TableNames fkDb = Inr ([''dbo.a'', ''dbo.d''] @ [''dbo.y'', ''dbo.x'']) \<and>
   set (fTableNamesOf fkMap ([''dbo.a'', ''dbo.d''] ! 1)) \<subseteq> set (take 1 [''dbo.a'', ''dbo.d'']) \<and>
   (\<exists>f \<in> set (fTableNamesOf fkMap ''dbo.y''). f \<notin> set [''dbo.a'', ''dbo.d'']) \<and>
   ''dbo.x'' \<in> set [''dbo.y'', ''dbo.x'']"
proof -
  have h1: "tablesQuery fkDb = Inr [Inr (''dbo'', ''a''), Inr (''dbo'', ''d''),
      Inr (''dbo'', ''x''), Inr (''dbo'', ''y'')]"
    by (simp add: fkDb_def)
  have h2: "scanTableRows [Inr (''dbo'', ''a''), Inr (''dbo'', ''d''), Inr (''dbo'', ''x''),
      Inr (''dbo'', ''y'')] [] = Inr [''dbo.a'', ''dbo.d'', ''dbo.x'', ''dbo.y'']"
    by simp
  have h3: "buildForeignTableMap fkDb [''dbo.a'', ''dbo.d'', ''dbo.x'', ''dbo.y''] Map.empty
      = Inr fkMap"
    by (simp add: fkDb_def fkMap_def getForeignDefs_def splitTableName_def SplitN2_def fkTo_def)
  have h4: "outerLoop fkMap [''dbo.a'', ''dbo.d'', ''dbo.x'', ''dbo.y''] Map.empty []
      = ([''dbo.y'', ''dbo.x''], [''dbo.a'' \<mapsto> True, ''dbo.d'' \<mapsto> True], [''dbo.a'', ''dbo.d''])"
    by (simp add: outerLoop.simps innerLoop.simps fkMap_def fTableNamesOf_def Let_def)
  note T = TableNames_dependency_order [OF h1 h2 h3 h4]
  have c: "(''dbo.x'', ''dbo.x'') \<in> {(t, f). f \<in> set (fTableNamesOf fkMap t)}\<^sup>+"
    by (rule r_into_trancl) (simp add: fkMap_def fTableNamesOf_def)
  have k: "(1::nat) < length [''dbo.a'', ''dbo.d'']"
    by simp
  have y: "''dbo.y'' \<in> set [''dbo.y'', ''dbo.x'']"
    by simp
  have x: "''dbo.x'' \<in> set [''dbo.a'', ''dbo.d'', ''dbo.x'', ''dbo.y'']"
    by simp
  show ?thesis
  proof (intro conjI)
    show "TableNames fkDb = Inr ([''dbo.a'', ''dbo.d''] @ [''dbo.y'', ''dbo.x''])"
      by (rule T [THEN conjunct1])
    show "set (fTableNamesOf fkMap ([''dbo.a'', ''dbo.d''] ! 1))
        \<subseteq> set (take 1 [''dbo.a'', ''dbo.d''])"
      by (rule T [THEN conjunct2, THEN conjunct1, rule_format, OF k])
    show "\<exists>f \<in> set (fTableNamesOf fkMap ''dbo.y''). f \<notin> set [''dbo.a'', ''dbo.d'']"
      by (rule T [THEN conjunct2, THEN conjunct2, THEN conjunct1, rule_format, OF y])
    show "''dbo.x'' \<in> set [''dbo.y'', ''dbo.x'']"
      by (rule T [THEN conjunct2, THEN conjunct2, THEN conjunct2, rule_format, OF x c])
  qed
qed

text \<open>
  Claim C8. Both loops are total functions: a pass ends because \<open>length tables - i\<close>
  falls in every step, and the passes end because a pass that does not end the loop has
  shortened the list. The result holds every table of the input as often as the input
  does.
\<close>

theorem orderByDependency_permutation:
  "mset (orderByDependency foreignTableMap tables) = mset tables \<and>
   (length (fst (innerLoop foreignTableMap 0 tables addedTables ordered)) < length tables \<or>
    outerLoop foreignTableMap tables addedTables ordered =
      innerLoop foreignTableMap 0 tables addedTables ordered)"
proof
  obtain t1 a1 o1 where run: "outerLoop foreignTableMap tables Map.empty [] = (t1, a1, o1)"
    by (cases "outerLoop foreignTableMap tables Map.empty []") auto
  have "mset o1 + mset t1 = mset [] + mset tables"
    using outerLoop_result [OF run] by simp
  then show "mset (orderByDependency foreignTableMap tables) = mset tables"
    by (simp add: orderByDependency_def run)
next
  obtain t1 a1 o1 where pass: "innerLoop foreignTableMap 0 tables addedTables ordered = (t1, a1, o1)"
    by (cases "innerLoop foreignTableMap 0 tables addedTables ordered") auto
  show "length (fst (innerLoop foreignTableMap 0 tables addedTables ordered)) < length tables \<or>
    outerLoop foreignTableMap tables addedTables ordered =
      innerLoop foreignTableMap 0 tables addedTables ordered"
  proof (cases "tables = []")
    case True
    then show ?thesis by (simp add: outerLoop_empty innerLoop_done)
  next
    case ne: False
    show ?thesis
    proof (cases "length t1 = length tables")
      case True
      with ne pass show ?thesis by (simp add: outerLoop_break)
    next
      case False
      with innerLoop_length_le [OF pass] pass show ?thesis by simp
    qed
  qed
qed

section \<open>Properties of the view definitions\<close>

lemma spaces_Nil: "spaces_ReplaceAllString [] repl = []"
  by (simp add: spaces_ReplaceAllString.simps)

lemma spaces_space:
  "spaces_ReplaceAllString (CHR '' '' # cs) repl =
   repl @ spaces_ReplaceAllString (dropWhile (\<lambda>x. x = CHR '' '') cs) repl"
  by (simp add: spaces_ReplaceAllString.simps)

lemma spaces_other:
  "c \<noteq> CHR '' '' \<Longrightarrow>
   spaces_ReplaceAllString (c # cs) repl = c # spaces_ReplaceAllString cs repl"
  by (simp add: spaces_ReplaceAllString.simps)

lemma spaces_eq_Nil: "spaces_ReplaceAllString s '' '' = [] \<longleftrightarrow> s = []"
proof (cases s)
  case Nil
  then show ?thesis by (simp add: spaces_Nil)
next
  case (Cons c cs)
  then show ?thesis
    by (cases "c = CHR '' ''") (simp_all add: spaces_space spaces_other)
qed

lemma spaces_hd: "s \<noteq> [] \<Longrightarrow> hd (spaces_ReplaceAllString s '' '') = hd s"
proof (cases s)
  case Nil
  assume "s \<noteq> []"
  with Nil show ?thesis by simp
next
  case (Cons c cs)
  then show ?thesis
    by (cases "c = CHR '' ''") (simp_all add: spaces_space spaces_other)
qed

lemma spaces_set: "set (spaces_ReplaceAllString s '' '') \<subseteq> set s"
proof (induction s "'' ''" rule: spaces_ReplaceAllString.induct)
  case 1
  show ?case by (simp add: spaces_Nil)
next
  case (2 c cs)
  show ?case
  proof (cases "c = CHR '' ''")
    case True
    with 2 have "set (spaces_ReplaceAllString (dropWhile (\<lambda>x. x = CHR '' '') cs) '' '')
        \<subseteq> set (dropWhile (\<lambda>x. x = CHR '' '') cs)"
      by simp
    also have "\<dots> \<subseteq> set cs"
      by (rule set_dropWhileD [THEN subsetI])
    finally show ?thesis using True by (auto simp: spaces_space)
  next
    case False
    with 2 show ?thesis by (auto simp: spaces_other)
  qed
qed

lemma dropWhile_hd_not: "dropWhile P xs \<noteq> [] \<Longrightarrow> \<not> P (hd (dropWhile P xs))"
  by (metis hd_dropWhile)

lemma spaces_no_run: "\<not> sublist ''  '' (spaces_ReplaceAllString s '' '')"
proof (induction s "'' ''" rule: spaces_ReplaceAllString.induct)
  case 1
  show ?case by (simp add: spaces_Nil)
next
  case (2 c cs)
  show ?case
  proof (cases "c = CHR '' ''")
    case True
    let ?r = "dropWhile (\<lambda>x. x = CHR '' '') cs"
    from 2 True have ih: "\<not> sublist ''  '' (spaces_ReplaceAllString ?r '' '')"
      by simp
    have "\<not> prefix ''  '' (CHR '' '' # spaces_ReplaceAllString ?r '' '')"
    proof (cases "?r = []")
      case True
      then have "spaces_ReplaceAllString ?r '' '' = []"
        by (simp only: spaces_Nil)
      then show ?thesis by simp
    next
      case False
      then have "hd ?r \<noteq> CHR '' ''"
        using dropWhile_hd_not [of "\<lambda>x. x = CHR '' ''" cs] by simp
      with False have "hd (spaces_ReplaceAllString ?r '' '') \<noteq> CHR '' ''"
        by (simp add: spaces_hd)
      moreover from False have "spaces_ReplaceAllString ?r '' '' \<noteq> []"
        by (simp add: spaces_eq_Nil)
      ultimately show ?thesis
        by (cases "spaces_ReplaceAllString ?r '' ''") auto
    qed
    with ih True show ?thesis
      by (simp add: spaces_space sublist_Cons_right)
  next
    case False
    with 2 show ?thesis
      by (simp add: spaces_other sublist_Cons_right)
  qed
qed

lemma last_dropWhile: "dropWhile P xs \<noteq> [] \<Longrightarrow> last (dropWhile P xs) = last xs"
  by (induction xs) (auto split: if_splits)

lemma dropWhile_Nil_last: "dropWhile P xs = [] \<Longrightarrow> xs \<noteq> [] \<Longrightarrow> P (last xs)"
  by (induction xs) (auto split: if_splits)

lemma spaces_last: "s \<noteq> [] \<Longrightarrow> last (spaces_ReplaceAllString s '' '') = last s"
proof (induction s "'' ''" rule: spaces_ReplaceAllString.induct)
  case 1
  then show ?case by simp
next
  case (2 c cs)
  show ?case
  proof (cases "c = CHR '' ''")
    case sp: True
    let ?r = "dropWhile (\<lambda>x. x = CHR '' '') cs"
    show ?thesis
    proof (cases "?r = []")
      case True
      then have e: "spaces_ReplaceAllString ?r '' '' = []"
        by (simp only: spaces_Nil)
      have l: "cs \<noteq> [] \<Longrightarrow> last cs = CHR '' ''"
        by (rule dropWhile_Nil_last [OF True])
      have "spaces_ReplaceAllString (c # cs) '' '' = '' ''"
        using sp e by (simp only: spaces_space) simp
      with sp l show ?thesis
        by (cases "cs = []") simp_all
    next
      case False
      with 2 sp have "last (spaces_ReplaceAllString ?r '' '') = last ?r"
        by simp
      moreover from False have "last ?r = last cs"
        by (rule last_dropWhile)
      moreover from False have "spaces_ReplaceAllString ?r '' '' \<noteq> []"
        by (simp only: spaces_eq_Nil not_False_eq_True)
      then have "last (CHR '' '' # spaces_ReplaceAllString ?r '' '')
          = last (spaces_ReplaceAllString ?r '' '')"
        by simp
      moreover from False have "cs \<noteq> []"
        by auto
      then have "last (c # cs) = last cs"
        by simp
      moreover have "spaces_ReplaceAllString (c # cs) '' ''
          = CHR '' '' # spaces_ReplaceAllString ?r '' ''"
        using sp by (simp only: spaces_space) simp
      ultimately show ?thesis
        by (simp only:)
    qed
  next
    case False
    show ?thesis
    proof (cases "cs = []")
      case True
      with False show ?thesis by (simp add: spaces_other spaces_Nil)
    next
      case ne: False
      with 2 False have "last (spaces_ReplaceAllString cs '' '') = last cs"
        by simp
      with False ne show ?thesis
        by (simp add: spaces_other spaces_eq_Nil)
    qed
  qed
qed

lemma suffix_single_iff: "suffix [a] xs \<longleftrightarrow> xs \<noteq> [] \<and> last xs = a"
proof (cases xs rule: rev_cases)
  case Nil
  then show ?thesis by simp
next
  case (snoc ys y)
  have "suffix ([] @ [a]) (ys @ [y]) \<longleftrightarrow> a = y \<and> suffix [] ys"
    by (rule snoc_suffix_snoc)
  with snoc show ?thesis by auto
qed

lemma suffix_two_iff:
  "suffix [a, b] (xs @ [c]) \<longleftrightarrow> c = b \<and> xs \<noteq> [] \<and> last xs = a"
proof -
  have "suffix ([a] @ [b]) (xs @ [c]) \<longleftrightarrow> b = c \<and> suffix [a] xs"
    by (rule snoc_suffix_snoc)
  then show ?thesis
    by (auto simp only: suffix_single_iff append.simps)
qed

lemma no_run_snoc:
  assumes "\<not> sublist ''  '' xs" and "c \<noteq> CHR '' ''"
  shows "\<not> sublist ''  '' (xs @ [c])"
proof
  assume "sublist ''  '' (xs @ [c])"
  then have "suffix ''  '' (xs @ [c]) \<or> sublist ''  '' xs"
    by (simp only: sublist_snoc)
  with assms(1) have "suffix [CHR '' '', CHR '' ''] (xs @ [c])"
    by blast
  then have "c = CHR '' ''"
    using suffix_two_iff [of "CHR '' ''" "CHR '' ''" xs c] by blast
  with assms(2) show False by blast
qed

lemma ReplaceAll_delete: "ch \<notin> set (ReplaceAll s ch [])"
  by (induction s) (auto simp: ReplaceAll_def)

lemma suffixSemicolon_set: "set (suffixSemicolon_ReplaceAllString s []) \<subseteq> set s"
  by (auto simp: suffixSemicolon_ReplaceAllString_def dest: in_set_butlastD)

lemma suffixSemicolon_last:
  "suffixSemicolon_ReplaceAllString s [] \<noteq> [] \<and> last (suffixSemicolon_ReplaceAllString s []) = CHR '';''
   \<longleftrightarrow> suffix '';;'' s"
proof (cases s rule: rev_cases)
  case Nil
  then show ?thesis by (simp add: suffixSemicolon_ReplaceAllString_def)
next
  case (snoc ys y)
  have two: "suffix '';;'' (ys @ [y]) \<longleftrightarrow> y = CHR '';'' \<and> ys \<noteq> [] \<and> last ys = CHR '';''"
    by (rule suffix_two_iff)
  show ?thesis
  proof (cases "y = CHR '';''")
    case True
    then have "suffixSemicolon_ReplaceAllString s [] = ys"
      by (simp add: suffixSemicolon_ReplaceAllString_def snoc)
    with two True snoc show ?thesis by simp
  next
    case False
    then have "suffixSemicolon_ReplaceAllString s [] = ys @ [y]"
      by (simp add: suffixSemicolon_ReplaceAllString_def snoc)
    with two False snoc show ?thesis by simp
  qed
qed

text \<open>What one view definition becomes.\<close>

lemma viewDDL_shape:
  "suffix '';'' (viewDDL definition) \<and> CHR 0x0A \<notin> set (viewDDL definition) \<and>
   \<not> sublist ''  '' (viewDDL definition) \<and>
   (suffix '';;'' (viewDDL definition)
      \<longleftrightarrow> suffix '';;'' (ReplaceAll (TrimSpace definition) (CHR 0x0A) []))"
proof -
  let ?s = "ReplaceAll (TrimSpace definition) (CHR 0x0A) []"
  let ?t = "suffixSemicolon_ReplaceAllString ?s []"
  let ?u = "spaces_ReplaceAllString ?t '' ''"
  have v: "viewDDL definition = ?u @ '';''"
    by (simp add: viewDDL_def Let_def)
  have "set ?u \<subseteq> set ?s"
    using spaces_set [of ?t] suffixSemicolon_set [of ?s] by blast
  moreover have "CHR 0x0A \<notin> set ?s"
    by (rule ReplaceAll_delete)
  ultimately have nl: "CHR 0x0A \<notin> set (?u @ '';'')"
    by auto
  have run: "\<not> sublist ''  '' (?u @ '';'')"
    using no_run_snoc [OF spaces_no_run, of "CHR '';''" ?t] by simp
  have "suffix '';;'' (?u @ '';'') \<longleftrightarrow> ?u \<noteq> [] \<and> last ?u = CHR '';''"
    using suffix_two_iff [of "CHR '';''" "CHR '';''" ?u "CHR '';''"] by simp
  also have "\<dots> \<longleftrightarrow> ?t \<noteq> [] \<and> last ?t = CHR '';''"
    using spaces_last [of ?t] by (auto simp: spaces_eq_Nil)
  also have "\<dots> \<longleftrightarrow> suffix '';;'' ?s"
    by (rule suffixSemicolon_last)
  finally have two: "suffix '';;'' (?u @ '';'') \<longleftrightarrow> suffix '';;'' ?s" .
  have "suffix '';'' (?u @ '';'')"
    by (simp add: suffix_def)
  with nl run two show ?thesis
    by (simp only: v) blast
qed

lemma scanViewRows_ok:
  "scanViewRows (map Inr vrows) ddls = Inr (ddls @ map (\<lambda>r. viewDDL (snd r)) vrows)"
  by (induction vrows arbitrary: ddls) (auto split: prod.splits)

lemma scanViewRows_Inr:
  "scanViewRows rows ddls = Inr res \<Longrightarrow>
   \<exists>vrows. rows = map Inr vrows \<and> res = ddls @ map (\<lambda>r. viewDDL (snd r)) vrows"
proof (induction rows ddls rule: scanViewRows.induct)
  case (1 ddls)
  then show ?case by simp
next
  case (2 err rest ddls)
  then show ?case by simp
next
  case (3 viewName defn rest ddls)
  then obtain vrows where "rest = map Inr vrows"
      "res = (ddls @ [viewDDL defn]) @ map (\<lambda>r. viewDDL (snd r)) vrows"
    by auto
  then have "Inr (viewName, defn) # rest = map Inr ((viewName, defn) # vrows) \<and>
      res = ddls @ map (\<lambda>r. viewDDL (snd r)) ((viewName, defn) # vrows)"
    by simp
  then show ?case by (rule exI)
qed

text \<open>
  Claim C10, as stated, fails: a view whose text ends in two semicolons comes back with
  two semicolons, since \<open>;$\<close> removes one and one is appended.
\<close>

theorem Views_one_semicolon_counterexample:
  "Views twoSemicolonsDb = Inr [''CREATE VIEW v AS SELECT 1 AS one;;''] \<and>
   suffix '';;'' ''CREATE VIEW v AS SELECT 1 AS one;;''"
  by (simp add: Views_def twoSemicolonsDb_def emptyDb_def viewDDL_def TrimSpace_def isSpace_def
      ReplaceAll_def suffixSemicolon_ReplaceAllString_def spaces_ReplaceAllString.simps
      suffix_to_prefix)

text \<open>
  Claim C10, amended. Every string that \<open>Views\<close> returns is the normal form of one row's
  definition; it ends with a semicolon, has no line feed and no two spaces in a row. It
  ends with two semicolons exactly when the trimmed definition without its line feeds
  does; otherwise its last semicolon is the only trailing one.
\<close>

theorem Views_normalized:
  assumes "Views d = Inr ddls"
  shows "\<exists>vrows. viewsQuery d = Inr (map Inr vrows) \<and>
     ddls = map (\<lambda>r. viewDDL (snd r)) vrows \<and>
     (\<forall>s \<in> set ddls. suffix '';'' s \<and> CHR 0x0A \<notin> set s \<and> \<not> sublist ''  '' s) \<and>
     (\<forall>r \<in> set vrows. suffix '';;'' (viewDDL (snd r))
        \<longleftrightarrow> suffix '';;'' (ReplaceAll (TrimSpace (snd r)) (CHR 0x0A) []))"
proof -
  from assms obtain rows where q: "viewsQuery d = Inr rows" and s: "scanViewRows rows [] = Inr ddls"
    by (auto simp: Views_def split: sum.splits)
  from scanViewRows_Inr [OF s] obtain vrows
    where v: "rows = map Inr vrows" "ddls = map (\<lambda>r. viewDDL (snd r)) vrows"
    by auto
  have "\<forall>s \<in> set ddls. suffix '';'' s \<and> CHR 0x0A \<notin> set s \<and> \<not> sublist ''  '' s"
    using viewDDL_shape by (auto simp: v(2))
  moreover have "\<forall>r \<in> set vrows. suffix '';;'' (viewDDL (snd r))
        \<longleftrightarrow> suffix '';;'' (ReplaceAll (TrimSpace (snd r)) (CHR 0x0A) [])"
    using viewDDL_shape by blast
  ultimately show ?thesis using q v by blast
qed

theorem Views_normalized_witness:
  "Views viewDb = Inr [''CREATE VIEW v AS SELECT 1 AS one ;''] \<and>
   suffix '';'' ''CREATE VIEW v AS SELECT 1 AS one ;'' \<and>
   CHR 0x0A \<notin> set ''CREATE VIEW v AS SELECT 1 AS one ;'' \<and>
   \<not> sublist ''  '' ''CREATE VIEW v AS SELECT 1 AS one ;''"
proof -
  have h: "Views viewDb = Inr [''CREATE VIEW v AS SELECT 1 AS one ;'']"
    by (simp add: Views_def viewDb_def emptyDb_def viewDDL_def TrimSpace_def isSpace_def
        ReplaceAll_def suffixSemicolon_ReplaceAllString_def spaces_ReplaceAllString.simps)
  from Views_normalized [OF h]
  have "\<forall>s \<in> set [''CREATE VIEW v AS SELECT 1 AS one ;''].
      suffix '';'' s \<and> CHR 0x0A \<notin> set s \<and> \<not> sublist ''  '' s"
    by blast
  then have "suffix '';'' ''CREATE VIEW v AS SELECT 1 AS one ;'' \<and>
      CHR 0x0A \<notin> set ''CREATE VIEW v AS SELECT 1 AS one ;'' \<and>
      \<not> sublist ''  '' ''CREATE VIEW v AS SELECT 1 AS one ;''"
    by (rule bspec) simp
  with h show ?thesis by (rule conjI)
qed

section \<open>Properties of the index listing, the views and the triggers\<close>

lemma scanTriggerRows_ok: "scanTriggerRows (map Inr trows) triggers = Inr (triggers @ trows)"
  by (induction trows arbitrary: triggers) auto

lemma scanIndexRows_ok:
  "scanIndexRows (map Inr irows) indexDefMap =
   Inr (foldl (\<lambda>m r. AList.update (index_name r) (indexDefinition r) m) indexDefMap irows)"
  by (induction irows arbitrary: indexDefMap) auto

lemma indexDefinition_name: "indexDef.name (indexDefinition r) = index_name r"
  by (simp add: indexDefinition_def Let_def)

lemma map_of_foldl_update:
  "map_of (foldl (\<lambda>m r. AList.update (index_name r) (indexDefinition r) m) indexDefMap irows) =
   map_of (rev (map (\<lambda>r. (index_name r, indexDefinition r)) irows) @ indexDefMap)"
proof (induction irows arbitrary: indexDefMap)
  case Nil
  show ?case by simp
next
  case (Cons r irows)
  have "map_of (AList.update (index_name r) (indexDefinition r) indexDefMap) =
      map_of ((index_name r, indexDefinition r) # indexDefMap)"
    by (simp add: update_conv')
  then show ?case
    by (simp add: Cons.IH)
qed

text \<open>The order of the index rows does not change the map, when no name comes twice.\<close>

lemma map_of_index_rows_mset:
  assumes "mset irows1 = mset irows2" and "distinct (map index_name irows1)"
  shows "map_of (foldl (\<lambda>m r. AList.update (index_name r) (indexDefinition r) m) [] irows1) =
         map_of (foldl (\<lambda>m r. AList.update (index_name r) (indexDefinition r) m) [] irows2)"
proof -
  let ?g = "\<lambda>r. (index_name r, indexDefinition r)"
  from assms(1) have "mset (map index_name irows1) = mset (map index_name irows2)"
    by simp
  with assms(2) have d2: "distinct (map index_name irows2)"
    by (metis mset_eq_imp_distinct_iff)
  have f: "map fst (rev (map ?g irows)) = rev (map index_name irows)" for irows
    by (simp add: rev_map comp_def)
  from assms(1) have "set irows1 = set irows2"
    by (rule mset_eq_setD)
  then have "set (rev (map ?g irows1)) = set (rev (map ?g irows2))"
    by simp
  moreover have "distinct (map fst (rev (map ?g irows1)))"
    using assms(2) by (simp only: f distinct_rev)
  moreover have "distinct (map fst (rev (map ?g irows2)))"
    using d2 by (simp only: f distinct_rev)
  ultimately have "map_of (rev (map ?g irows1)) = map_of (rev (map ?g irows2))"
    by (simp only: map_of_inject_set)
  then show ?thesis
    by (simp add: map_of_foldl_update)
qed

text \<open>
  The invariant of \<open>indexDefMap\<close>: no key comes twice and every definition is stored
  under its own name.
\<close>

lemma update_invariant:
  assumes "distinct (map fst m) \<and> (\<forall>k v. map_of m k = Some v \<longrightarrow> indexDef.name v = k)"
    and "indexDef.name v = k"
  shows "distinct (map fst (AList.update k v m)) \<and>
         (\<forall>k' v'. map_of (AList.update k v m) k' = Some v' \<longrightarrow> indexDef.name v' = k')"
  using assms by (auto simp: distinct_update update_conv')

lemma indexDefMap_names:
  "distinct (map fst m) \<and> (\<forall>k v. map_of m k = Some v \<longrightarrow> indexDef.name v = k) \<Longrightarrow>
   distinct (map fst (foldl (\<lambda>m r. AList.update (index_name r) (indexDefinition r) m) m irows)) \<and>
   (\<forall>k v. map_of (foldl (\<lambda>m r. AList.update (index_name r) (indexDefinition r) m) m irows) k = Some v
      \<longrightarrow> indexDef.name v = k)"
proof (induction irows arbitrary: m)
  case Nil
  then show ?case by simp
next
  case (Cons r irows)
  have "distinct (map fst (AList.update (index_name r) (indexDefinition r) m)) \<and>
      (\<forall>k' v'. map_of (AList.update (index_name r) (indexDefinition r) m) k' = Some v'
         \<longrightarrow> indexDef.name v' = k')"
    by (rule update_invariant [OF Cons.prems indexDefinition_name])
  from Cons.IH [OF this] show ?case by simp
qed

lemma scanIndexColumnRows_names:
  "scanIndexColumnRows crows m = Inr m' \<Longrightarrow>
   distinct (map fst m) \<and> (\<forall>k v. map_of m k = Some v \<longrightarrow> indexDef.name v = k) \<Longrightarrow>
   distinct (map fst m') \<and> (\<forall>k v. map_of m' k = Some v \<longrightarrow> indexDef.name v = k)"
proof (induction crows m rule: scanIndexColumnRows.induct)
  case (1 indexDefMap)
  then show ?case by simp
next
  case (2 err rest indexDefMap)
  then show ?case by simp
next
  case (3 r rest indexDefMap)
  from "3.prems"(1) obtain defn where g: "map_of indexDefMap (ic_index_name r) = Some defn"
    by (auto simp: Let_def split: option.splits)
  with "3.prems"(2) have n: "indexDef.name defn = ic_index_name r"
    by blast
  show ?case
  proof (cases "is_included_column r")
    case True
    let ?v = "defn\<lparr> included := included defn @ [''['' @ column_name r @ '']''] \<rparr>"
    from "3.prems"(1) g True have run: "scanIndexColumnRows rest
        (AList.update (ic_index_name r) ?v indexDefMap) = Inr m'"
      by (simp add: Let_def)
    from n have "indexDef.name ?v = ic_index_name r" by simp
    from update_invariant [OF "3.prems"(2) this]
    show ?thesis
      using "3.IH"(1) [OF refl g True run] by blast
  next
    case False
    let ?c = "if is_descending_key r then (''['' @ column_name r @ '']'') @ '' DESC''
              else ''['' @ column_name r @ '']''"
    let ?v = "defn\<lparr> columns := columns defn @ [?c] \<rparr>"
    from "3.prems"(1) g False have run: "scanIndexColumnRows rest
        (AList.update (ic_index_name r) ?v indexDefMap) = Inr m'"
      by (cases "is_descending_key r") (simp_all add: Let_def)
    from n have "indexDef.name ?v = ic_index_name r" by simp
    from update_invariant [OF "3.prems"(2) this]
    show ?thesis
      using "3.IH"(2) [OF refl g False refl run] by blast
  qed
qed

text \<open>The second loop reads the map only through its lookups.\<close>

lemma scanIndexColumnRows_map_of:
  "map_of m1 = map_of m2 \<Longrightarrow>
   rel_sum (=) (\<lambda>a b. map_of a = map_of b)
     (scanIndexColumnRows crows m1) (scanIndexColumnRows crows m2)"
proof (induction crows arbitrary: m1 m2)
  case Nil
  then show ?case by simp
next
  case (Cons row crows)
  show ?case
  proof (cases row)
    case (Inl err)
    then show ?thesis by simp
  next
    case (Inr r)
    show ?thesis
    proof (cases "map_of m2 (ic_index_name r)")
      case None
      with Cons.prems Inr show ?thesis by (simp add: Let_def)
    next
      case (Some defn)
      have u: "map_of (AList.update k v m1) = map_of (AList.update k v m2)" for k v
        using Cons.prems by (simp add: update_conv')
      show ?thesis
        using Cons.prems Inr Some
        by (auto simp: Let_def intro!: Cons.IH u)
    qed
  qed
qed

text \<open>
  Sorting by a key that no two elements share gives one result for all orders of the
  elements.
\<close>

lemma filter_key_single:
  assumes "distinct (map f xs)" and "k \<in> set xs"
  shows "filter (\<lambda>x. f k = f x) xs = [k]"
  using assms
proof (induction xs)
  case Nil
  then show ?case by simp
next
  case (Cons x xs)
  show ?case
  proof (cases "x = k")
    case True
    with Cons.prems(1) have "\<forall>y \<in> set xs. f k \<noteq> f y"
      by auto
    then have "filter (\<lambda>x. f k = f x) xs = []"
      by (simp add: filter_empty_conv)
    with True show ?thesis by simp
  next
    case False
    with Cons.prems(2) have k: "k \<in> set xs"
      by simp
    then have "f k \<in> f ` set xs"
      by (rule imageI)
    moreover from Cons.prems(1) have "f x \<notin> f ` set xs"
      by simp
    ultimately have "f k \<noteq> f x"
      by metis
    with Cons.IH k Cons.prems(1) show ?thesis by simp
  qed
qed

lemma sort_key_distinct_mset:
  assumes "mset xs = mset ys" and "distinct (map f xs)"
  shows "sort_key f xs = sort_key f ys"
proof (rule properties_for_sort_key)
  show "mset (sort_key f ys) = mset xs"
    using assms(1) by simp
  show "sorted (map f (sort_key f ys))"
    by simp
  from assms(1) have se: "set xs = set ys"
    by (rule mset_eq_setD)
  fix k assume k': "k \<in> set (sort_key f ys)"
  with se have k: "k \<in> set xs"
    by simp
  have "mset (map f (sort_key f ys)) = mset (map f xs)"
    using assms(1) by simp
  with assms(2) have d: "distinct (map f (sort_key f ys))"
    by (metis mset_eq_imp_distinct_iff)
  show "filter (\<lambda>x. f k = f x) (sort_key f ys) = filter (\<lambda>x. f k = f x) xs"
    by (simp only: filter_key_single [OF d k'] filter_key_single [OF assms(2) k])
qed

lemma indexDefMap_values:
  assumes "distinct (map fst m) \<and> (\<forall>k v. map_of m k = Some v \<longrightarrow> indexDef.name v = k)"
  shows "map indexDef.name (map snd m) = map fst m"
proof -
  have "\<forall>p \<in> set m. indexDef.name (snd p) = fst p"
  proof
    fix p assume "p \<in> set m"
    then have "(fst p, snd p) \<in> set m"
      by simp
    with assms have "map_of m (fst p) = Some (snd p)"
      by (metis map_of_is_SomeI)
    with assms show "indexDef.name (snd p) = fst p"
      by blast
  qed
  then show ?thesis by simp
qed

lemma sortedIndexDefs_map_of:
  assumes "distinct (map fst m1) \<and> (\<forall>k v. map_of m1 k = Some v \<longrightarrow> indexDef.name v = k)"
    and "distinct (map fst m2) \<and> (\<forall>k v. map_of m2 k = Some v \<longrightarrow> indexDef.name v = k)"
    and "map_of m1 = map_of m2"
  shows "sortedIndexDefs m1 = sortedIndexDefs m2"
proof -
  from assms have "set m1 = set m2"
    by (simp add: map_of_inject_set)
  with assms(1,2) have ms: "mset m1 = mset m2"
    by (metis distinct_map set_eq_iff_mset_eq_distinct)
  have e: "map indexDef.name (map snd m1) = map fst m1"
    by (rule indexDefMap_values [OF assms(1)])
  from assms(1) have "distinct (map indexDef.name (map snd m1))"
    by (simp only: e)
  moreover from ms have "mset (map snd m1) = mset (map snd m2)"
    by simp
  ultimately show ?thesis
    unfolding sortedIndexDefs_def by (rule sort_key_distinct_mset [rotated])
qed

lemma sortedIndexDefs_sorted:
  assumes "distinct (map fst m) \<and> (\<forall>k v. map_of m k = Some v \<longrightarrow> indexDef.name v = k)"
  shows "sorted (map indexDef.name (sortedIndexDefs m)) \<and>
         distinct (map indexDef.name (sortedIndexDefs m))"
proof -
  have e: "map indexDef.name (map snd m) = map fst m"
    by (rule indexDefMap_values [OF assms])
  from assms have "distinct (map indexDef.name (map snd m))"
    by (simp only: e)
  moreover have "mset (map indexDef.name (sort_key indexDef.name (map snd m)))
      = mset (map indexDef.name (map snd m))"
    by (simp only: mset_map mset_sort)
  ultimately have "distinct (map indexDef.name (sort_key indexDef.name (map snd m)))"
    by (metis mset_eq_imp_distinct_iff)
  then show ?thesis
    by (simp add: sortedIndexDefs_def)
qed

text \<open>
  Claim C3, as stated, fails: \<open>Triggers\<close> (and \<open>Views\<close>) return their rows in the order
  of the backend, so two orders of the same rows give two different results.
\<close>

theorem Triggers_row_order_counterexample:
  "mset [triggerA, triggerB] = mset [triggerB, triggerA] \<and>
   Triggers (emptyDb \<lparr> triggersQuery := Inr [Inr triggerA, Inr triggerB] \<rparr>)
     = Inr [triggerA, triggerB] \<and>
   Triggers (emptyDb \<lparr> triggersQuery := Inr [Inr triggerB, Inr triggerA] \<rparr>)
     = Inr [triggerB, triggerA] \<and>
   [triggerA, triggerB] \<noteq> [triggerB, triggerA]"
  by (simp add: Triggers_def emptyDb_def triggerA_def triggerB_def)

text \<open>
  Claim C3, amended. The index listing is sorted by the caller: for two orders of the same
  index rows, with no index name twice, and the same index-column rows, \<open>getIndexDefs\<close>
  returns the same value, and a returned list is sorted by index name. \<open>Views\<close> and
  \<open>Triggers\<close> are not sorted: they return one entry for each row, in the order of the
  rows.
\<close>

theorem index_listing_sorted_views_triggers_in_row_order:
  assumes sp: "splitTableName table = (schema, tbl)"
    and q1: "indexesQuery d1 schema tbl = Inr (map Inr irows1)"
    and q2: "indexesQuery d2 schema tbl = Inr (map Inr irows2)"
    and ms: "mset irows1 = mset irows2"
    and di: "distinct (map index_name irows1)"
    and cq: "indexColumnsQuery d1 schema tbl = indexColumnsQuery d2 schema tbl"
  shows "getIndexDefs d1 table = getIndexDefs d2 table \<and>
     (\<forall>defs. getIndexDefs d1 table = Inr defs \<longrightarrow>
        sorted (map indexDef.name defs) \<and> distinct (map indexDef.name defs)) \<and>
     Views (d \<lparr> viewsQuery := Inr (map Inr vrows) \<rparr>) = Inr (map (\<lambda>r. viewDDL (snd r)) vrows) \<and>
     Triggers (d \<lparr> triggersQuery := Inr (map Inr trows) \<rparr>) = Inr trows"
proof -
  let ?upd = "\<lambda>m r. AList.update (index_name r) (indexDefinition r) m"
  let ?m1 = "foldl ?upd [] irows1"
  let ?m2 = "foldl ?upd [] irows2"
  have e: "distinct (map fst ([] :: (string \<times> indexDef) list)) \<and>
      (\<forall>k v. map_of ([] :: (string \<times> indexDef) list) k = Some v \<longrightarrow> indexDef.name v = k)"
    by simp
  have i1: "distinct (map fst ?m1) \<and> (\<forall>k v. map_of ?m1 k = Some v \<longrightarrow> indexDef.name v = k)"
    by (rule indexDefMap_names [OF e])
  have i2: "distinct (map fst ?m2) \<and> (\<forall>k v. map_of ?m2 k = Some v \<longrightarrow> indexDef.name v = k)"
    by (rule indexDefMap_names [OF e])
  have mo: "map_of ?m1 = map_of ?m2"
    by (rule map_of_index_rows_mset [OF ms di])
  have g1: "getIndexDefs d1 table =
      (case indexColumnsQuery d2 schema tbl of
         Inl err \<Rightarrow> Inl err
       | Inr crows \<Rightarrow>
           (case scanIndexColumnRows crows ?m1 of
              Inl err \<Rightarrow> Inl err
            | Inr m \<Rightarrow> Inr (sortedIndexDefs m)))"
    by (simp add: getIndexDefs_def sp q1 scanIndexRows_ok cq)
  have g2: "getIndexDefs d2 table =
      (case indexColumnsQuery d2 schema tbl of
         Inl err \<Rightarrow> Inl err
       | Inr crows \<Rightarrow>
           (case scanIndexColumnRows crows ?m2 of
              Inl err \<Rightarrow> Inl err
            | Inr m \<Rightarrow> Inr (sortedIndexDefs m)))"
    by (simp add: getIndexDefs_def sp q2 scanIndexRows_ok)
  have same: "(case scanIndexColumnRows crows ?m1 of
              Inl err \<Rightarrow> Inl err
            | Inr m \<Rightarrow> Inr (sortedIndexDefs m)) =
         (case scanIndexColumnRows crows ?m2 of
              Inl err \<Rightarrow> Inl err
            | Inr m \<Rightarrow> Inr (sortedIndexDefs m))" for crows
  proof -
    have r: "rel_sum (=) (\<lambda>a b. map_of a = map_of b)
        (scanIndexColumnRows crows ?m1) (scanIndexColumnRows crows ?m2)"
      by (rule scanIndexColumnRows_map_of [OF mo])
    show ?thesis
    proof (cases "scanIndexColumnRows crows ?m1")
      case (Inl err)
      with r show ?thesis
        by (cases "scanIndexColumnRows crows ?m2") simp_all
    next
      case a: (Inr a)
      with r obtain b where b: "scanIndexColumnRows crows ?m2 = Inr b" "map_of a = map_of b"
        by (cases "scanIndexColumnRows crows ?m2") simp_all
      have "sortedIndexDefs a = sortedIndexDefs b"
        by (rule sortedIndexDefs_map_of
            [OF scanIndexColumnRows_names [OF a i1] scanIndexColumnRows_names [OF b(1) i2] b(2)])
      with a b(1) show ?thesis by simp
    qed
  qed
  have eq: "getIndexDefs d1 table = getIndexDefs d2 table"
    by (simp only: g1 g2 same)
  have so: "sorted (map indexDef.name defs) \<and> distinct (map indexDef.name defs)"
    if "getIndexDefs d1 table = Inr defs" for defs
  proof -
    from that obtain crows m where "scanIndexColumnRows crows ?m1 = Inr m"
        "defs = sortedIndexDefs m"
      by (auto simp: g1 split: sum.splits)
    then show ?thesis
      using sortedIndexDefs_sorted [OF scanIndexColumnRows_names [OF _ i1]] by blast
  qed
  have v: "Views (d \<lparr> viewsQuery := Inr (map Inr vrows) \<rparr>) = Inr (map (\<lambda>r. viewDDL (snd r)) vrows)"
    by (simp add: Views_def scanViewRows_ok)
  have t: "Triggers (d \<lparr> triggersQuery := Inr (map Inr trows) \<rparr>) = Inr trows"
    by (simp add: Triggers_def scanTriggerRows_ok)
  from eq so v t show ?thesis by blast
qed

theorem index_listing_sorted_views_triggers_in_row_order_witness:
  "getIndexDefs (indexDb [primaryKeyRow, plainIndexRow]) ''dbo.t''
     = getIndexDefs (indexDb [plainIndexRow, primaryKeyRow]) ''dbo.t'' \<and>
   getIndexDefs (indexDb [primaryKeyRow, plainIndexRow]) ''dbo.t''
     = Inr [(indexDefinition plainIndexRow)\<lparr> columns := [''[a] DESC''] \<rparr>,
            (indexDefinition primaryKeyRow)\<lparr> columns := [''[id]''] \<rparr>] \<and>
   sorted (map indexDef.name [(indexDefinition plainIndexRow)\<lparr> columns := [''[a] DESC''] \<rparr>,
            (indexDefinition primaryKeyRow)\<lparr> columns := [''[id]''] \<rparr>]) \<and>
   Views (emptyDb \<lparr> viewsQuery := Inr (map Inr [(''v'', ''CREATE VIEW v AS SELECT 1'')]) \<rparr>)
     = Inr (map (\<lambda>r. viewDDL (snd r)) [(''v'', ''CREATE VIEW v AS SELECT 1'')]) \<and>
   Triggers (emptyDb \<lparr> triggersQuery := Inr (map Inr [triggerB, triggerA]) \<rparr>)
     = Inr [triggerB, triggerA]"
proof -
  have sp: "splitTableName ''dbo.t'' = (''dbo'', ''t'')"
    by (simp add: splitTableName_def SplitN2_def)
  have q1: "indexesQuery (indexDb [primaryKeyRow, plainIndexRow]) ''dbo'' ''t''
      = Inr (map Inr [primaryKeyRow, plainIndexRow])"
    by (simp add: indexDb_def)
  have q2: "indexesQuery (indexDb [plainIndexRow, primaryKeyRow]) ''dbo'' ''t''
      = Inr (map Inr [plainIndexRow, primaryKeyRow])"
    by (simp add: indexDb_def)
  have ms: "mset [primaryKeyRow, plainIndexRow] = mset [plainIndexRow, primaryKeyRow]"
    by simp
  have di: "distinct (map index_name [primaryKeyRow, plainIndexRow])"
    by (simp add: primaryKeyRow_def plainIndexRow_def)
  have cq: "indexColumnsQuery (indexDb [primaryKeyRow, plainIndexRow]) ''dbo'' ''t''
      = indexColumnsQuery (indexDb [plainIndexRow, primaryKeyRow]) ''dbo'' ''t''"
    by (simp add: indexDb_def)
  note T = index_listing_sorted_views_triggers_in_row_order [OF sp q1 q2 ms di cq,
      where d = emptyDb and vrows = "[(''v'', ''CREATE VIEW v AS SELECT 1'')]"
        and trows = "[triggerB, triggerA]"]
  have gv: "getIndexDefs (indexDb [primaryKeyRow, plainIndexRow]) ''dbo.t''
     = Inr [(indexDefinition plainIndexRow)\<lparr> columns := [''[a] DESC''] \<rparr>,
            (indexDefinition primaryKeyRow)\<lparr> columns := [''[id]''] \<rparr>]"
    by (simp add: getIndexDefs_def indexDb_def emptyDb_def splitTableName_def SplitN2_def
        primaryKeyRow_def plainIndexRow_def indexColumnRows_def indexDefinition_def
        sortedIndexDefs_def Let_def boolToOnOff_def)
  note S = T [THEN conjunct2, THEN conjunct1, rule_format, OF gv]
  show ?thesis
    by (intro conjI) (rule T [THEN conjunct1] gv S [THEN conjunct1]
        T [THEN conjunct2, THEN conjunct2, THEN conjunct1]
        T [THEN conjunct2, THEN conjunct2, THEN conjunct2])+
qed

section \<open>Properties of the dump of a table\<close>

lemma reservedKeywords_dom:
  "dom (foldl (\<lambda>m keyword. m(ToLower keyword \<mapsto> True)) m0 kws) =
   dom m0 \<union> ToLower ` set kws"
  by (induction kws arbitrary: m0) auto

lemma reservedKeywords_iff:
  "reservedKeywords keywords s \<noteq> None \<longleftrightarrow> s \<in> ToLower ` set keywords"
proof -
  have "reservedKeywords keywords s \<noteq> None \<longleftrightarrow> s \<in> dom (reservedKeywords keywords)"
    by (simp add: dom_def)
  also have "\<dots> \<longleftrightarrow> s \<in> ToLower ` set keywords"
    by (simp add: reservedKeywords_def reservedKeywords_dom)
  finally show ?thesis .
qed

lemma columnDefs_append:
  "columnDefs keywords i (before @ col # after) =
   columnDefs keywords i before @ (if i + length before > 0 then '','' else [])
   @ ''\<newline>'' @ indent @ columnDef keywords col
   @ columnDefs keywords (i + length before + 1) after"
  by (induction before arbitrary: i) simp_all

lemma TrimSuffix_append: "TrimSuffix (s @ suf) suf = s"
  by (simp add: TrimSuffix_def suffix_def)

lemma createIndexStmt_snoc:
  "\<exists>s. createIndexStmt table indexDef = s @ '';''"
  by (simp add: createIndexStmt_def)

lemma createIndexStmts_last:
  "createIndexStmts table indexDefs \<noteq> [] \<Longrightarrow> last (createIndexStmts table indexDefs) = CHR '';''"
proof (induction indexDefs)
  case Nil
  then show ?case by simp
next
  case (Cons indexDef rest)
  show ?case
  proof (cases "length (included indexDef) = 0 \<or> primary indexDef")
    case True
    then have "createIndexStmts table (indexDef # rest) = createIndexStmts table rest"
      by auto
    with Cons show ?thesis by simp
  next
    case False
    obtain s where s: "createIndexStmt table indexDef = s @ '';''"
      using createIndexStmt_snoc by blast
    from False have c: "createIndexStmts table (indexDef # rest) =
        createIndexStmt table indexDef @ createIndexStmts table rest"
      by simp
    show ?thesis
    proof (cases "createIndexStmts table rest = []")
      case True
      with c s show ?thesis by simp
    next
      case False
      with Cons.IH c show ?thesis by simp
    qed
  qed
qed

text \<open>
  The text of the dump: the \<open>CREATE TABLE\<close> statement with the four inline parts, and
  after it the \<open>CREATE INDEX\<close> statements, if there are any.
\<close>

lemma buildDumpTableDDL_parts:
  "buildDumpTableDDL keywords table cols indexDefs foreignDefs =
   ''CREATE TABLE '' @ table @ '' (''
   @ (columnDefs keywords 0 cols @ primaryKeyDefs indexDefs @ foreignDefsText foreignDefs
      @ inlineIndexDefs indexDefs)
   @ ''\<newline>);''
   @ (if createIndexStmts table indexDefs = [] then []
      else ''\<newline>'' @ createIndexStmts table indexDefs)"
proof (cases "createIndexStmts table indexDefs = []")
  case True
  let ?x = "''CREATE TABLE '' @ table @ '' ('' @ (columnDefs keywords 0 cols
      @ primaryKeyDefs indexDefs @ foreignDefsText foreignDefs @ inlineIndexDefs indexDefs)
      @ ''\<newline>);''"
  have "buildDumpTableDDL keywords table cols indexDefs foreignDefs
      = TrimSuffix (?x @ ''\<newline>'') ''\<newline>''"
    by (simp add: buildDumpTableDDL_def True)
  also have "\<dots> = ?x"
    by (rule TrimSuffix_append)
  finally show ?thesis
    using True by simp
next
  case False
  let ?s = "''CREATE TABLE '' @ table @ '' ('' @ columnDefs keywords 0 cols
      @ primaryKeyDefs indexDefs @ foreignDefsText foreignDefs @ inlineIndexDefs indexDefs
      @ ''\<newline>);\<newline>'' @ createIndexStmts table indexDefs"
  from False have "last ?s = CHR '';''"
    by (simp add: createIndexStmts_last)
  then have "\<not> suffix ''\<newline>'' ?s"
    by (auto simp only: suffix_single_iff)
  then have "TrimSuffix ?s ''\<newline>'' = ?s"
    by (simp only: TrimSuffix_def if_False)
  with False show ?thesis
    by (simp add: buildDumpTableDDL_def)
qed

lemma foreignDefsText_sublist:
  "v \<in> set foreignDefs \<Longrightarrow> sublist ('',\<newline>'' @ indent @ v) (foreignDefsText foreignDefs)"
proof (induction foreignDefs)
  case Nil
  then show ?case by simp
next
  case (Cons w rest)
  show ?case
  proof (cases "v = w")
    case True
    have "sublist ('',\<newline>'' @ indent @ w) ([] @ ('',\<newline>'' @ indent @ w) @ foreignDefsText rest)"
      by (rule sublist_appendI)
    with True show ?thesis by simp
  next
    case False
    with Cons have "sublist ('',\<newline>'' @ indent @ v) (foreignDefsText rest)"
      by simp
    then have "sublist ('',\<newline>'' @ indent @ v) (('',\<newline>'' @ indent @ w) @ foreignDefsText rest)"
      by (simp only: sublist_append) blast
    then show ?thesis by simp
  qed
qed

lemma primaryKeyDefs_sublist:
  "indexDef \<in> set indexDefs \<Longrightarrow> primary indexDef \<Longrightarrow>
   sublist (primaryKeyDef indexDef) (primaryKeyDefs indexDefs)"
proof (induction indexDefs)
  case Nil
  then show ?case by simp
next
  case (Cons x rest)
  show ?case
  proof (cases "indexDef = x")
    case True
    have "sublist (primaryKeyDef x) ([] @ primaryKeyDef x @ primaryKeyDefs rest)"
      by (rule sublist_appendI)
    with True Cons.prems(2) show ?thesis by simp
  next
    case False
    with Cons have s: "sublist (primaryKeyDef indexDef) (primaryKeyDefs rest)"
      by simp
    then have "sublist (primaryKeyDef indexDef) (primaryKeyDef x @ primaryKeyDefs rest)"
      by (simp only: sublist_append) blast
    with s show ?thesis by simp
  qed
qed

lemma inlineIndexDefs_sublist:
  "indexDef \<in> set indexDefs \<Longrightarrow> \<not> primary indexDef \<Longrightarrow> included indexDef = [] \<Longrightarrow>
   sublist (inlineIndexDef indexDef) (inlineIndexDefs indexDefs)"
proof (induction indexDefs)
  case Nil
  then show ?case by simp
next
  case (Cons x rest)
  show ?case
  proof (cases "indexDef = x")
    case True
    have "sublist (inlineIndexDef x) ([] @ inlineIndexDef x @ inlineIndexDefs rest)"
      by (rule sublist_appendI)
    with True Cons.prems(2,3) show ?thesis by simp
  next
    case False
    with Cons have s: "sublist (inlineIndexDef indexDef) (inlineIndexDefs rest)"
      by simp
    then have "sublist (inlineIndexDef indexDef) (inlineIndexDef x @ inlineIndexDefs rest)"
      by (simp only: sublist_append) blast
    with s show ?thesis by simp
  qed
qed

lemma createIndexStmts_sublist:
  "indexDef \<in> set indexDefs \<Longrightarrow> \<not> primary indexDef \<Longrightarrow> included indexDef \<noteq> [] \<Longrightarrow>
   sublist (createIndexStmt table indexDef) (createIndexStmts table indexDefs)"
proof (induction indexDefs)
  case Nil
  then show ?case by simp
next
  case (Cons x rest)
  show ?case
  proof (cases "indexDef = x")
    case True
    have "sublist (createIndexStmt table x)
        ([] @ createIndexStmt table x @ createIndexStmts table rest)"
      by (rule sublist_appendI)
    with True Cons.prems(2,3) show ?thesis by simp
  next
    case False
    with Cons have s: "sublist (createIndexStmt table indexDef) (createIndexStmts table rest)"
      by simp
    then have "sublist (createIndexStmt table indexDef)
        (createIndexStmt table x @ createIndexStmts table rest)"
      by (simp only: sublist_append) blast
    with s show ?thesis by simp
  qed
qed

text \<open>Indexes with included columns add nothing to the inline part.\<close>

lemma inlineIndexDefs_filter:
  "inlineIndexDefs indexDefs =
   inlineIndexDefs (filter (\<lambda>indexDef. included indexDef = []) indexDefs)"
  by (induction indexDefs) simp_all

text \<open>
  Claim C2, as stated, fails: an index with included columns is not inside the
  \<open>CREATE TABLE\<close> statement; it is dumped as a \<open>CREATE INDEX\<close> statement after it.
\<close>

theorem DumpTableDDL_include_index_counterexample:
  "DumpTableDDL [''KEY'', ''SELECT''] coverDb ''dbo.t'' =
     Inr (''CREATE TABLE dbo.t (\<newline>    id int NOT NULL,\<newline>    [key] int NOT NULL\<newline>);''
          @ ''\<newline>\<newline>CREATE NONCLUSTERED INDEX [ix_cover] ON dbo.t ([id]) INCLUDE ([key]) WITH ( PAD_INDEX = OFF, IGNORE_DUP_KEY = OFF, STATISTICS_NORECOMPUTE = OFF, STATISTICS_INCREMENTAL = OFF, ALLOW_ROW_LOCKS = ON, ALLOW_PAGE_LOCKS = ON );'') \<and>
   \<not> sublist ''ix_cover''
       ''CREATE TABLE dbo.t (\<newline>    id int NOT NULL,\<newline>    [key] int NOT NULL\<newline>);''"
  by (simp add: DumpTableDDL_def getColumns_def getIndexDefs_def getForeignDefs_def
      splitTableName_def SplitN2_def coverDb_def tableDb_def emptyDb_def intColumnRow_def
      coverIndexRow_def scanColumn_def indexDefinition_def sortedIndexDefs_def
      buildDumpTableDDL_def columnDef_def getSafeColumnName_def reservedKeywords_def
      ToLower_def toLowerChar_def getLength_def indent_def createIndexStmt_def
      indexTypeClause_def withOptions_def boolToOnOff_def TrimSuffix_def suffix_to_prefix
      Let_def sublist_Cons_right)

text \<open>
  Claim C2, amended. \<open>DumpTableDDL\<close> returns one \<open>CREATE TABLE\<close> statement for the table,
  which holds, after the columns, every primary key, every foreign-key constraint and
  every other index without included columns. An index with included columns is not
  inline: it adds nothing to the statement and follows it as a \<open>CREATE INDEX\<close>
  statement.
\<close>

theorem DumpTableDDL_inline_parts:
  assumes "getColumns d table = Inr cols"
    and "getIndexDefs d table = Inr indexDefs"
    and "getForeignDefs d table = Inr (foreignDefs, foreignTableNames)"
  shows "DumpTableDDL keywords d table =
       Inr (''CREATE TABLE '' @ table @ '' (''
            @ (columnDefs keywords 0 cols @ primaryKeyDefs indexDefs
               @ foreignDefsText foreignDefs @ inlineIndexDefs indexDefs)
            @ ''\<newline>);''
            @ (if createIndexStmts table indexDefs = [] then []
               else ''\<newline>'' @ createIndexStmts table indexDefs)) \<and>
     (\<forall>v \<in> set foreignDefs. sublist ('',\<newline>'' @ indent @ v) (foreignDefsText foreignDefs)) \<and>
     (\<forall>indexDef \<in> set indexDefs. primary indexDef
        \<longrightarrow> sublist (primaryKeyDef indexDef) (primaryKeyDefs indexDefs)) \<and>
     (\<forall>indexDef \<in> set indexDefs. \<not> primary indexDef \<and> included indexDef = []
        \<longrightarrow> sublist (inlineIndexDef indexDef) (inlineIndexDefs indexDefs)) \<and>
     (\<forall>indexDef \<in> set indexDefs. \<not> primary indexDef \<and> included indexDef \<noteq> []
        \<longrightarrow> sublist (createIndexStmt table indexDef) (createIndexStmts table indexDefs)) \<and>
     inlineIndexDefs indexDefs =
       inlineIndexDefs (filter (\<lambda>indexDef. included indexDef = []) indexDefs)"
proof -
  have "DumpTableDDL keywords d table =
      Inr (buildDumpTableDDL keywords table cols indexDefs foreignDefs)"
    by (simp add: DumpTableDDL_def assms)
  then have "DumpTableDDL keywords d table =
       Inr (''CREATE TABLE '' @ table @ '' (''
            @ (columnDefs keywords 0 cols @ primaryKeyDefs indexDefs
               @ foreignDefsText foreignDefs @ inlineIndexDefs indexDefs)
            @ ''\<newline>);''
            @ (if createIndexStmts table indexDefs = [] then []
               else ''\<newline>'' @ createIndexStmts table indexDefs))"
    by (simp only: buildDumpTableDDL_parts)
  moreover have "\<forall>v \<in> set foreignDefs.
      sublist ('',\<newline>'' @ indent @ v) (foreignDefsText foreignDefs)"
    using foreignDefsText_sublist by blast
  moreover have "\<forall>indexDef \<in> set indexDefs. primary indexDef
        \<longrightarrow> sublist (primaryKeyDef indexDef) (primaryKeyDefs indexDefs)"
    using primaryKeyDefs_sublist by blast
  moreover have "\<forall>indexDef \<in> set indexDefs. \<not> primary indexDef \<and> included indexDef = []
        \<longrightarrow> sublist (inlineIndexDef indexDef) (inlineIndexDefs indexDefs)"
    using inlineIndexDefs_sublist by blast
  moreover have "\<forall>indexDef \<in> set indexDefs. \<not> primary indexDef \<and> included indexDef \<noteq> []
        \<longrightarrow> sublist (createIndexStmt table indexDef) (createIndexStmts table indexDefs)"
    using createIndexStmts_sublist by blast
  moreover note inlineIndexDefs_filter [of indexDefs]
  ultimately show ?thesis by (intro conjI)
qed

theorem DumpTableDDL_inline_parts_witness:
  "DumpTableDDL [''KEY'', ''SELECT''] tableDb ''dbo.t'' =
     Inr ''CREATE TABLE dbo.t (\<newline>    id int NOT NULL,\<newline>    [key] int NOT NULL,\<newline>    CONSTRAINT [pk_t] PRIMARY KEY CLUSTERED ([id]) WITH ( PAD_INDEX = OFF, IGNORE_DUP_KEY = OFF, STATISTICS_NORECOMPUTE = OFF, STATISTICS_INCREMENTAL = OFF, ALLOW_ROW_LOCKS = ON, ALLOW_PAGE_LOCKS = ON ),\<newline>    CONSTRAINT [fk_x] FOREIGN KEY ([x_id]) REFERENCES dbo.x ([id]) ON UPDATE NO ACTION ON DELETE CASCADE,\<newline>    INDEX [ix_a] NONCLUSTERED ([key] DESC) WITH ( PAD_INDEX = OFF, IGNORE_DUP_KEY = OFF, STATISTICS_NORECOMPUTE = OFF, STATISTICS_INCREMENTAL = OFF, ALLOW_ROW_LOCKS = ON, ALLOW_PAGE_LOCKS = ON )\<newline>);\<newline>\<newline>CREATE NONCLUSTERED INDEX [ix_cover] ON dbo.t ([id]) INCLUDE ([key]) WITH ( PAD_INDEX = OFF, IGNORE_DUP_KEY = OFF, STATISTICS_NORECOMPUTE = OFF, STATISTICS_INCREMENTAL = OFF, ALLOW_ROW_LOCKS = ON, ALLOW_PAGE_LOCKS = ON );'' \<and>
   sublist ('',\<newline>'' @ indent @ tableForeignDef) (foreignDefsText [tableForeignDef]) \<and>
   sublist (primaryKeyDef (tableIndexDefs ! 2)) (primaryKeyDefs tableIndexDefs) \<and>
   sublist (inlineIndexDef (tableIndexDefs ! 0)) (inlineIndexDefs tableIndexDefs) \<and>
   sublist (createIndexStmt ''dbo.t'' (tableIndexDefs ! 1)) (createIndexStmts ''dbo.t'' tableIndexDefs)"
proof -
  have sp: "splitTableName ''dbo.t'' = (''dbo'', ''t'')"
    by (simp add: splitTableName_def SplitN2_def)
  have c: "getColumns tableDb ''dbo.t'' = Inr tableColumns"
    by (simp add: getColumns_def sp tableDb_def emptyDb_def intColumnRow_def scanColumn_def
        tableColumns_def)
  have i: "getIndexDefs tableDb ''dbo.t'' = Inr tableIndexDefs"
    by (simp add: getIndexDefs_def sp tableDb_def emptyDb_def primaryKeyRow_def
        plainIndexRow_def coverIndexRow_def indexDefinition_def sortedIndexDefs_def
        tableIndexDefs_def Let_def boolToOnOff_def)
  have f: "getForeignDefs tableDb ''dbo.t'' = Inr ([tableForeignDef], [''dbo.x''])"
    by (simp add: getForeignDefs_def sp tableDb_def emptyDb_def fkTo_def ReplaceAll_def
        tableForeignDef_def)
  note T = DumpTableDDL_inline_parts [OF c i f, of "[''KEY'', ''SELECT'']"]
  have ddl: "DumpTableDDL [''KEY'', ''SELECT''] tableDb ''dbo.t'' =
     Inr ''CREATE TABLE dbo.t (\<newline>    id int NOT NULL,\<newline>    [key] int NOT NULL,\<newline>    CONSTRAINT [pk_t] PRIMARY KEY CLUSTERED ([id]) WITH ( PAD_INDEX = OFF, IGNORE_DUP_KEY = OFF, STATISTICS_NORECOMPUTE = OFF, STATISTICS_INCREMENTAL = OFF, ALLOW_ROW_LOCKS = ON, ALLOW_PAGE_LOCKS = ON ),\<newline>    CONSTRAINT [fk_x] FOREIGN KEY ([x_id]) REFERENCES dbo.x ([id]) ON UPDATE NO ACTION ON DELETE CASCADE,\<newline>    INDEX [ix_a] NONCLUSTERED ([key] DESC) WITH ( PAD_INDEX = OFF, IGNORE_DUP_KEY = OFF, STATISTICS_NORECOMPUTE = OFF, STATISTICS_INCREMENTAL = OFF, ALLOW_ROW_LOCKS = ON, ALLOW_PAGE_LOCKS = ON )\<newline>);\<newline>\<newline>CREATE NONCLUSTERED INDEX [ix_cover] ON dbo.t ([id]) INCLUDE ([key]) WITH ( PAD_INDEX = OFF, IGNORE_DUP_KEY = OFF, STATISTICS_NORECOMPUTE = OFF, STATISTICS_INCREMENTAL = OFF, ALLOW_ROW_LOCKS = ON, ALLOW_PAGE_LOCKS = ON );''"
    using T [THEN conjunct1]
    by (simp add: tableColumns_def tableIndexDefs_def tableForeignDef_def primaryKeyRow_def
        plainIndexRow_def coverIndexRow_def indexDefinition_def columnDef_def
        getSafeColumnName_def reservedKeywords_def ToLower_def toLowerChar_def getLength_def
        indent_def createIndexStmt_def primaryKeyDef_def inlineIndexDef_def indexTypeClause_def
        withOptions_def boolToOnOff_def Let_def)
  have m0: "tableIndexDefs ! 0 \<in> set tableIndexDefs" and m1: "tableIndexDefs ! 1 \<in> set tableIndexDefs"
    and m2: "tableIndexDefs ! 2 \<in> set tableIndexDefs"
    by (simp_all add: tableIndexDefs_def)
  have p0: "\<not> primary (tableIndexDefs ! 0) \<and> included (tableIndexDefs ! 0) = []"
    by (simp add: tableIndexDefs_def indexDefinition_def plainIndexRow_def Let_def)
  have p1: "\<not> primary (tableIndexDefs ! 1) \<and> included (tableIndexDefs ! 1) \<noteq> []"
    by (simp add: tableIndexDefs_def indexDefinition_def coverIndexRow_def Let_def)
  have p2: "primary (tableIndexDefs ! 2)"
    by (simp add: tableIndexDefs_def indexDefinition_def primaryKeyRow_def Let_def)
  have fm: "tableForeignDef \<in> set [tableForeignDef]"
    by simp
  show ?thesis
    by (intro conjI)
      (rule ddl
        T [THEN conjunct2, THEN conjunct1, rule_format, OF fm]
        T [THEN conjunct2, THEN conjunct2, THEN conjunct1, rule_format, OF m2 p2]
        T [THEN conjunct2, THEN conjunct2, THEN conjunct2, THEN conjunct1, rule_format, OF m0 p0]
        T [THEN conjunct2, THEN conjunct2, THEN conjunct2, THEN conjunct2, THEN conjunct1,
           rule_format, OF m1 p1])+
qed

text \<open>
  Claim C4. A column whose name, in lower case, is a keyword in lower case is written
  into the \<open>CREATE TABLE\<close> text in square brackets, at the column's own place.
\<close>

theorem reserved_column_name_quoted:
  assumes "cols = before @ col # after"
    and "\<exists>keyword \<in> set keywords. ToLower keyword = ToLower (Name col)"
  shows "getSafeColumnName keywords (Name col) = ''['' @ Name col @ '']'' \<and>
    (\<exists>rest. buildDumpTableDDL keywords table cols indexDefs foreignDefs =
       ''CREATE TABLE '' @ table @ '' ('' @ columnDefs keywords 0 before
       @ (if before = [] then [] else '','')
       @ ''\<newline>'' @ indent @ ''['' @ Name col @ ''] '' @ dataType col @ rest)"
proof -
  from assms(2) have "ToLower (Name col) \<in> ToLower ` set keywords"
    by (metis imageI)
  then have "reservedKeywords keywords (ToLower (Name col)) \<noteq> None"
    by (simp only: reservedKeywords_iff)
  then have q: "getSafeColumnName keywords (Name col) = ''['' @ Name col @ '']''"
    by (simp only: getSafeColumnName_def) simp
  obtain tail where cd: "columnDef keywords col = (''['' @ Name col @ ''] '' @ dataType col) @ tail"
    by (simp add: columnDef_def q)
  have "buildDumpTableDDL keywords table cols indexDefs foreignDefs =
       ''CREATE TABLE '' @ table @ '' ('' @ columnDefs keywords 0 before
       @ (if before = [] then [] else '','')
       @ ''\<newline>'' @ indent @ ''['' @ Name col @ ''] '' @ dataType col
       @ (tail @ columnDefs keywords (length before + 1) after @ primaryKeyDefs indexDefs
          @ foreignDefsText foreignDefs @ inlineIndexDefs indexDefs @ ''\<newline>);''
          @ (if createIndexStmts table indexDefs = [] then []
             else ''\<newline>'' @ createIndexStmts table indexDefs))"
    by (simp add: buildDumpTableDDL_parts assms(1) columnDefs_append cd)
  then show ?thesis
    using q by blast
qed

theorem reserved_column_name_quoted_witness:
  "getSafeColumnName [''KEY'', ''SELECT''] (Name (tableColumns ! 1)) = ''[key]'' \<and>
   (\<exists>rest. buildDumpTableDDL [''KEY'', ''SELECT''] ''dbo.t'' tableColumns tableIndexDefs
        [tableForeignDef] =
      ''CREATE TABLE dbo.t (\<newline>    id int NOT NULL,\<newline>    [key] int'' @ rest)"
proof -
  have a: "tableColumns = [tableColumns ! 0] @ (tableColumns ! 1) # []"
    by (simp add: tableColumns_def)
  have b: "\<exists>keyword \<in> set [''KEY'', ''SELECT''].
      ToLower keyword = ToLower (Name (tableColumns ! 1))"
    by (simp add: tableColumns_def ToLower_def toLowerChar_def)
  note T = reserved_column_name_quoted [OF a b, of "''dbo.t''" tableIndexDefs "[tableForeignDef]"]
  from T show ?thesis
    by (simp add: tableColumns_def columnDef_def getSafeColumnName_def reservedKeywords_def
        ToLower_def toLowerChar_def getLength_def indent_def)
qed

section \<open>Exit codes and the database name\<close>

text \<open>
  Claim C5, as stated, fails twice: with \<open>--help\<close> and no database name the exit code
  is 0, not 1; and with one database name and \<open>--password-prompt\<close>, when the password
  cannot be read, the function exits with code 1 and returns no config.
\<close>

theorem parseOptions_exit_counterexample:
  "parseOptions (exampleSystem None (Inr ''typed'')) [''--help''] = Exit 0 \<and>
   parseOptions (exampleSystem None (Inl ''inappropriate ioctl for device''))
     [''--password-prompt'', ''--password'', ''flagpw'', ''db''] = Exit 1"
  by (simp add: parseOptions_def exampleSystem_def exampleParseArgs_def exampleParseFiles_def
      defaultOpts_def)

text \<open>
  Claim C5, amended. For an argument list that the parser accepts and for which no
  \<open>--file\<close> entry supplies the current schema: \<open>--help\<close> and \<open>--version\<close> exit with
  code 0, whatever else is given; otherwise no database name, or more than one, exits
  with code 1; otherwise \<open>parseOptions\<close> returns a config whose \<open>DbName\<close> is the single
  positional argument, unless \<open>--password-prompt\<close> is given and the password cannot be
  read, which exits with code 1.
\<close>

theorem parseOptions_exit_codes:
  assumes "ParseArgs sys args = Inr (opts, positional)"
    and "ParseFiles sys (File opts) = (desiredFile, currentFile)"
    and "length currentFile = 0"
  shows "(Help opts \<or> Version opts \<longrightarrow> parseOptions sys args = Exit 0) \<and>
    (\<not> Help opts \<and> \<not> Version opts \<and> (length positional = 0 \<or> length positional > 1)
       \<longrightarrow> parseOptions sys args = Exit 1) \<and>
    (\<not> Help opts \<and> \<not> Version opts \<and> length positional = 1 \<and> Prompt opts \<and>
       isl (ReadPassword sys) \<longrightarrow> parseOptions sys args = Exit 1) \<and>
    (\<not> Help opts \<and> \<not> Version opts \<and> length positional = 1 \<and>
       \<not> (Prompt opts \<and> isl (ReadPassword sys))
       \<longrightarrow> (\<exists>config options. parseOptions sys args = Return (config, options) \<and>
              DbName config = positional ! 0))"
proof -
  from assms(3) have cf: "currentFile = []"
    by simp
  note defs = parseOptions_def assms(1) assms(2) cf Let_def
  show ?thesis
  proof (intro conjI impI)
    assume "Help opts \<or> Version opts"
    then show "parseOptions sys args = Exit 0"
      by (auto simp: defs)
  next
    assume "\<not> Help opts \<and> \<not> Version opts \<and> (length positional = 0 \<or> length positional > 1)"
    then show "parseOptions sys args = Exit 1"
      by (auto simp: defs)
  next
    assume "\<not> Help opts \<and> \<not> Version opts \<and> length positional = 1 \<and> Prompt opts \<and>
         isl (ReadPassword sys)"
    then show "parseOptions sys args = Exit 1"
      by (cases "ReadPassword sys") (simp_all add: defs)
  next
    assume a: "\<not> Help opts \<and> \<not> Version opts \<and> length positional = 1 \<and>
         \<not> (Prompt opts \<and> isl (ReadPassword sys))"
    show "\<exists>config options. parseOptions sys args = Return (config, options) \<and>
                DbName config = positional ! 0"
    proof (cases "Prompt opts")
      case True
      with a obtain pass where "ReadPassword sys = Inr pass"
        by (cases "ReadPassword sys") simp_all
      with a True show ?thesis
        by (auto simp: defs)
    next
      case False
      with a show ?thesis
        by (auto simp: defs)
    qed
  qed
qed

theorem parseOptions_exit_codes_witness:
  "parseOptions (exampleSystem None (Inr ''typed'')) [''--help''] = Exit 0 \<and>
   parseOptions (exampleSystem None (Inr ''typed'')) [] = Exit 1 \<and>
   parseOptions (exampleSystem None (Inr ''typed'')) [''db'', ''db2''] = Exit 1 \<and>
   parseOptions (exampleSystem None (Inl ''inappropriate ioctl for device''))
     [''--password-prompt'', ''--password'', ''flagpw'', ''db''] = Exit 1 \<and>
   (\<exists>config options.
      parseOptions (exampleSystem None (Inr ''typed'')) [''db''] = Return (config, options) \<and>
      DbName config = [''db''] ! 0)"
proof -
  let ?S = "exampleSystem None (Inr ''typed'')"
  let ?F = "exampleSystem None (Inl ''inappropriate ioctl for device'')"
  note ex = exampleSystem_def exampleParseArgs_def exampleParseFiles_def defaultOpts_def
  have f0: "ParseFiles ?S (File defaultOpts) = (''-'', [])"
    by (simp add: ex)
  have l: "length ([] :: string list) = 0"
    by simp
  have p1: "ParseArgs ?S [''--help''] = Inr (defaultOpts\<lparr> Help := True \<rparr>, [])"
    by (simp add: ex)
  have f1: "ParseFiles ?S (File (defaultOpts\<lparr> Help := True \<rparr>)) = (''-'', [])"
    by (simp add: ex)
  have h1: "Help (defaultOpts\<lparr> Help := True \<rparr>) \<or> Version (defaultOpts\<lparr> Help := True \<rparr>)"
    by simp
  have p2: "ParseArgs ?S [] = Inr (defaultOpts, [])"
    by (simp add: ex)
  have h2: "\<not> Help defaultOpts \<and> \<not> Version defaultOpts \<and>
      (length ([] :: string list) = 0 \<or> length ([] :: string list) > 1)"
    by (simp add: defaultOpts_def)
  have p3: "ParseArgs ?S [''db'', ''db2''] = Inr (defaultOpts, [''db'', ''db2''])"
    by (simp add: ex)
  have h3: "\<not> Help defaultOpts \<and> \<not> Version defaultOpts \<and>
      (length [''db'', ''db2''] = 0 \<or> length [''db'', ''db2''] > 1)"
    by (simp add: defaultOpts_def)
  have p4: "ParseArgs ?F [''--password-prompt'', ''--password'', ''flagpw'', ''db'']
      = Inr (defaultOpts\<lparr> opts.Password := ''flagpw'', Prompt := True \<rparr>, [''db''])"
    by (simp add: ex)
  have f4: "ParseFiles ?F (File (defaultOpts\<lparr> opts.Password := ''flagpw'', Prompt := True \<rparr>))
      = (''-'', [])"
    by (simp add: ex)
  have h4: "\<not> Help (defaultOpts\<lparr> opts.Password := ''flagpw'', Prompt := True \<rparr>) \<and>
      \<not> Version (defaultOpts\<lparr> opts.Password := ''flagpw'', Prompt := True \<rparr>) \<and>
      length [''db''] = 1 \<and> Prompt (defaultOpts\<lparr> opts.Password := ''flagpw'', Prompt := True \<rparr>) \<and>
      isl (ReadPassword ?F)"
    by (simp add: ex)
  have p5: "ParseArgs ?S [''db''] = Inr (defaultOpts, [''db''])"
    by (simp add: ex)
  have h5: "\<not> Help defaultOpts \<and> \<not> Version defaultOpts \<and> length [''db''] = 1 \<and>
      \<not> (Prompt defaultOpts \<and> isl (ReadPassword ?S))"
    by (simp add: ex)
  show ?thesis
    by (intro conjI)
      (rule parseOptions_exit_codes [OF p1 f1 l, THEN conjunct1, rule_format, OF h1]
        parseOptions_exit_codes [OF p2 f0 l, THEN conjunct2, THEN conjunct1, rule_format, OF h2]
        parseOptions_exit_codes [OF p3 f0 l, THEN conjunct2, THEN conjunct1, rule_format, OF h3]
        parseOptions_exit_codes [OF p4 f4 l, THEN conjunct2, THEN conjunct2, THEN conjunct1,
          rule_format, OF h4]
        parseOptions_exit_codes [OF p5 f0 l, THEN conjunct2, THEN conjunct2, THEN conjunct2,
          rule_format, OF h5])+
qed

section \<open>The password\<close>

text \<open>
  Claim C6, as stated, fails: with \<open>--password-prompt\<close> the password of the config is
  the one read from the terminal, also when \<open>MYSQL_PWD\<close> is set.
\<close>

theorem parseOptions_password_counterexample:
  "parseOptions (exampleSystem (Some ''envpw'') (Inr ''typed''))
     [''--password-prompt'', ''--password'', ''flagpw'', ''db'']
     = Return (exampleConfig ''typed'', exampleOptions) \<and>
   Config.Password (exampleConfig ''typed'') \<noteq> ''envpw''"
  by (simp add: parseOptions_def exampleSystem_def exampleParseArgs_def exampleParseFiles_def
      defaultOpts_def exampleConfig_def exampleOptions_def uintToInt_def)

text \<open>
  Claim C6, amended. In a config that \<open>parseOptions\<close> returns, without
  \<open>--password-prompt\<close> the password is the value of \<open>MYSQL_PWD\<close> when the variable is set
  and the value of \<open>--password\<close> when it is not; with \<open>--password-prompt\<close> it is the
  password read from the terminal.
\<close>

theorem parseOptions_password:
  assumes "ParseArgs sys args = Inr (opts, positional)"
    and "parseOptions sys args = Return (config, sqldefOptions)"
  shows "(\<forall>v. \<not> Prompt opts \<and> LookupEnv sys ''MYSQL_PWD'' = Some v
            \<longrightarrow> Config.Password config = v) \<and>
         (\<not> Prompt opts \<and> LookupEnv sys ''MYSQL_PWD'' = None
            \<longrightarrow> Config.Password config = opts.Password opts) \<and>
         (Prompt opts \<longrightarrow> ReadPassword sys = Inr (Config.Password config))"
  using assms(2)
  by (auto simp: parseOptions_def assms(1) Let_def
      split: if_splits prod.splits sum.splits option.splits)

theorem parseOptions_password_witness:
  "parseOptions (exampleSystem (Some ''envpw'') (Inr ''typed'')) [''--password'', ''flagpw'', ''db'']
     = Return (exampleConfig ''envpw'', exampleOptions) \<and>
   Config.Password (exampleConfig ''envpw'') = ''envpw'' \<and>
   parseOptions (exampleSystem None (Inr ''typed'')) [''--password'', ''flagpw'', ''db'']
     = Return (exampleConfig ''flagpw'', exampleOptions) \<and>
   Config.Password (exampleConfig ''flagpw'')
     = opts.Password (defaultOpts\<lparr> opts.Password := ''flagpw'' \<rparr>) \<and>
   ReadPassword (exampleSystem (Some ''envpw'') (Inr ''typed''))
     = Inr (Config.Password (exampleConfig ''typed''))"
proof -
  let ?E = "exampleSystem (Some ''envpw'') (Inr ''typed'')"
  let ?N = "exampleSystem None (Inr ''typed'')"
  note ex = exampleSystem_def exampleParseArgs_def exampleParseFiles_def defaultOpts_def
    exampleConfig_def exampleOptions_def uintToInt_def
  have p1: "ParseArgs ?E [''--password'', ''flagpw'', ''db'']
      = Inr (defaultOpts\<lparr> opts.Password := ''flagpw'' \<rparr>, [''db''])"
    by (simp add: ex)
  have r1: "parseOptions ?E [''--password'', ''flagpw'', ''db'']
      = Return (exampleConfig ''envpw'', exampleOptions)"
    by (simp add: parseOptions_def ex)
  have h1: "\<not> Prompt (defaultOpts\<lparr> opts.Password := ''flagpw'' \<rparr>) \<and>
      LookupEnv ?E ''MYSQL_PWD'' = Some ''envpw''"
    by (simp add: ex)
  have p2: "ParseArgs ?N [''--password'', ''flagpw'', ''db'']
      = Inr (defaultOpts\<lparr> opts.Password := ''flagpw'' \<rparr>, [''db''])"
    by (simp add: ex)
  have r2: "parseOptions ?N [''--password'', ''flagpw'', ''db'']
      = Return (exampleConfig ''flagpw'', exampleOptions)"
    by (simp add: parseOptions_def ex)
  have h2: "\<not> Prompt (defaultOpts\<lparr> opts.Password := ''flagpw'' \<rparr>) \<and>
      LookupEnv ?N ''MYSQL_PWD'' = None"
    by (simp add: ex)
  have p3: "ParseArgs ?E [''--password-prompt'', ''--password'', ''flagpw'', ''db'']
      = Inr (defaultOpts\<lparr> opts.Password := ''flagpw'', Prompt := True \<rparr>, [''db''])"
    by (simp add: ex)
  have r3: "parseOptions ?E [''--password-prompt'', ''--password'', ''flagpw'', ''db'']
      = Return (exampleConfig ''typed'', exampleOptions)"
    by (simp add: parseOptions_def ex)
  have h3: "Prompt (defaultOpts\<lparr> opts.Password := ''flagpw'', Prompt := True \<rparr>)"
    by simp
  show ?thesis
    by (intro conjI)
      (rule r1 r2
        parseOptions_password [OF p1 r1, THEN conjunct1, rule_format, OF h1]
        parseOptions_password [OF p2 r2, THEN conjunct2, THEN conjunct1, rule_format, OF h2]
        parseOptions_password [OF p3 r3, THEN conjunct2, THEN conjunct2, rule_format, OF h3])+
qed

end
